theory Spec2Isabelle
  imports Main "HOL-Library.Word" "HOL-Library.Signed_Division" "HOL-Library.AList"
begin

unbundle bit_operations_syntax

section \<open>Entry model (experience.h)\<close>

text \<open>
  The scalar types of the header: \<open>ExpKey\<close> is the engine's 64-bit position key,
  \<open>ExpValue\<close> and \<open>ExpDepth\<close> are C++ \<open>int\<close> (32 bits, two's complement, read with
  \<open>sint\<close>), the counter is \<open>u16\<close>. \<open>types.h\<close> is not among the sources; \<open>ExpMove\<close> is
  taken as the four bytes that the field comment of the header and the on-disk format
  give it.  C++ leaves signed overflow undefined; the model wraps around, as the
  hardware does.
\<close>

type_synonym ExpKey = "64 word"
type_synonym ExpMove = "32 word"
type_synonym ExpValue = "32 word"
type_synonym ExpDepth = "32 word"
type_synonym u16 = "16 word"

definition MinDepth :: ExpDepth where
  "MinDepth = 4"

text \<open>\<open>V2::ExpEntry\<close>, 24 bytes: key, move, value, depth, count, padding.\<close>

record ExpEntry =
  key :: ExpKey
  move :: ExpMove
  "value" :: ExpValue
  depth :: ExpDepth
  count :: u16
  padding :: u16

text \<open>The two-argument constructor chain: \<open>count = c\<close>, padding zeroed.\<close>

definition new_entry :: "ExpKey \<Rightarrow> ExpMove \<Rightarrow> ExpValue \<Rightarrow> ExpDepth \<Rightarrow> u16 \<Rightarrow> ExpEntry" where
  "new_entry k m v d c = \<lparr>key = k, move = m, value = v, depth = d, count = c, padding = 0\<rparr>"

text \<open>C++ \<open>/\<close> on \<open>int\<close> truncates towards zero; \<open>std::max\<close> on \<open>int\<close> compares signed.\<close>

definition int_div :: "32 word \<Rightarrow> 32 word \<Rightarrow> 32 word" where
  "int_div a b = word_of_int (sint a sdiv sint b)"

definition int_max :: "32 word \<Rightarrow> 32 word \<Rightarrow> 32 word" where
  "int_max a b = (if a <s b then b else a)"

text \<open>
  \<open>V2::ExpEntry::merge\<close>.  The two asserts (equal key, equal move) are compiled out in a
  release build and are not part of the function's effect.  The sum of the two counters is
  formed in \<open>int\<close>, clamped with \<open>std::min<u32>\<close> and cast back to \<open>u16\<close>.
\<close>

definition merge :: "ExpEntry \<Rightarrow> ExpEntry \<Rightarrow> ExpEntry" where
  "merge a b =
     (let a1 = a\<lparr>count := of_nat (min (unat (count a) + unat (count b)) 65535)\<rparr>
      in if depth a1 = depth b then a1\<lparr>value := int_div (value a1 + value b) 2\<rparr>
         else if depth a1 <s depth b then a1\<lparr>value := value b, depth := depth b\<rparr>
         else a1)"

text \<open>\<open>V2::ExpEntry::compare\<close> with its local lambda \<open>scaledValue\<close>.\<close>

definition scaledValue :: "32 word \<Rightarrow> 32 word \<Rightarrow> 32 word \<Rightarrow> 32 word" where
  "scaledValue v d c = v * int_max (int_div d 10) 1 * int_max (int_div c 3) 1"

definition compare :: "ExpEntry \<Rightarrow> ExpEntry \<Rightarrow> 32 word" where
  "compare a b =
     (let v = scaledValue (value a) (depth a) (ucast (count a))
              - scaledValue (value b) (depth b) (ucast (count b))
      in if v \<noteq> 0 then v
         else (let v2 = ucast (count a) - ucast (count b)
               in if v2 \<noteq> 0 then v2 else depth a - depth b))"

section \<open>The controller's memory (class ExperienceData)\<close>

text \<open>
  Entries live at addresses.  \<open>heap\<close> gives the 24 data bytes of the \<open>ExpEntryEx\<close> at an
  address; the \<open>next\<close> pointers are represented by the order of the address list that the
  index keeps for each key (the head first), so that walking \<open>next\<close> until \<open>nullptr\<close> is
  recursion over that list.  The staging vectors hold addresses too: an entry that is both
  staged and linked is one object, and a merge into it is seen from both sides.
  \<open>mainExp\<close> is the hash map (\<open>google::dense_hash_map\<close> or \<open>std::unordered_map\<close>, chosen
  when the engine is built).  The order in which such a map is walked depends on its
  hashing and its history; the association list fixes one order (a new key goes to the
  end), which need not be the one of a given build.  The properties below do not rest
  on that choice: they hold for an index given in any order of its keys, or describe a
  file up to the order of the keys.  The order inside a chain is the code's.
\<close>

type_synonym addr = nat
type_synonym memory = "addr \<Rightarrow> ExpEntry"

record ExperienceData =
  filename :: string
  heap :: memory
  next_addr :: addr
  expData :: "addr list list"
  newPvExp :: "addr list"
  newMultiPvExp :: "addr list"
  oldExpData :: "addr list"
  mainExp :: "(ExpKey \<times> addr list) list"
  freed :: "addr list"
  loading :: bool
  abortLoading :: bool
  loadingResult :: bool

text \<open>The constructor \<open>ExperienceData()\<close>: everything empty, the three flags false.\<close>

definition new_ExperienceData :: "memory \<Rightarrow> addr \<Rightarrow> ExperienceData" where
  "new_ExperienceData h n =
     \<lparr>filename = [], heap = h, next_addr = n, expData = [], newPvExp = [],
      newMultiPvExp = [], oldExpData = [], mainExp = [], freed = [],
      loading = False, abortLoading = False, loadingResult = False\<rparr>"

text \<open>\<open>ExpEntryEx::find(m)\<close>: the first entry of the chain with move \<open>m\<close>.\<close>

fun find_move :: "memory \<Rightarrow> addr list \<Rightarrow> ExpMove \<Rightarrow> addr option" where
  "find_move h [] m = None"
| "find_move h (a # as) m = (if move (h a) = m then Some a else find_move h as m)"

text \<open>
  The \<open>do ... while (true)\<close> loop of \<open>link_entry\<close>.  The flag says whether the cursor
  \<open>exp2\<close> is still the head \<open>itr->second\<close>.  When \<open>exp\<close> compares greater than the cursor,
  the head case puts \<open>exp\<close> in front of it; the other case executes
  \<open>exp->next = exp2->next; exp2->next = exp\<close>, which puts \<open>exp\<close> behind the cursor.
\<close>

fun insert_walk :: "memory \<Rightarrow> addr \<Rightarrow> bool \<Rightarrow> addr list \<Rightarrow> addr list" where
  "insert_walk h e at_head [] = [e]"
| "insert_walk h e at_head (c # rest) =
     (if 0 <s compare (h e) (h c)
      then (if at_head then e # c # rest else c # e # rest)
      else if rest = [] then [c, e]
      else c # insert_walk h e False rest)"

text \<open>\<open>ExperienceData::link_entry\<close>; the result flag is its return value.\<close>

definition link_entry :: "addr \<Rightarrow> ExperienceData \<Rightarrow> bool \<times> ExperienceData" where
  "link_entry e st =
     (let ex = heap st e in
      case map_of (mainExp st) (key ex) of
        None \<Rightarrow> (True, st\<lparr>mainExp := mainExp st @ [(key ex, [e])]\<rparr>)
      | Some chain \<Rightarrow>
          (case find_move (heap st) chain (move ex) of
             Some e2 \<Rightarrow>
               (False, st\<lparr>heap := (heap st)(e2 := merge (heap st e2) (heap st e))\<rparr>)
           | None \<Rightarrow>
               (True, st\<lparr>mainExp :=
                  AList.update (key ex) (insert_walk (heap st) e True chain) (mainExp st)\<rparr>)))"

text \<open>\<open>new ExpEntryEx(k, m, v, d, 1)\<close>: a fresh address holding the new entry.\<close>

definition alloc_entry :: "ExpEntry \<Rightarrow> ExperienceData \<Rightarrow> addr \<times> ExperienceData" where
  "alloc_entry ex st =
     (next_addr st, st\<lparr>heap := (heap st)(next_addr st := ex), next_addr := Suc (next_addr st)\<rparr>)"

text \<open>The methods \<open>ExperienceData::add_pv_experience\<close> and \<open>add_multipv_experience\<close>.\<close>

definition data_add_pv_experience :: "ExpKey \<Rightarrow> ExpMove \<Rightarrow> ExpValue \<Rightarrow> ExpDepth \<Rightarrow> ExperienceData \<Rightarrow> ExperienceData" where
  "data_add_pv_experience k m v d st =
     (let (e, st1) = alloc_entry (new_entry k m v d 1) st;
          st2 = st1\<lparr>newPvExp := newPvExp st1 @ [e]\<rparr>
      in snd (link_entry e st2))"

definition data_add_multipv_experience :: "ExpKey \<Rightarrow> ExpMove \<Rightarrow> ExpValue \<Rightarrow> ExpDepth \<Rightarrow> ExperienceData \<Rightarrow> ExperienceData" where
  "data_add_multipv_experience k m v d st =
     (let (e, st1) = alloc_entry (new_entry k m v d 1) st;
          st2 = st1\<lparr>newMultiPvExp := newMultiPvExp st1 @ [e]\<rparr>
      in snd (link_entry e st2))"

text \<open>\<open>ExperienceData::probe\<close> (the chain of a key) and \<open>has_new_exp\<close>.\<close>

definition data_probe :: "ExperienceData \<Rightarrow> ExpKey \<Rightarrow> addr list option" where
  "data_probe st k = map_of (mainExp st) k"

definition has_new_exp :: "ExperienceData \<Rightarrow> bool" where
  "has_new_exp st = (newPvExp st \<noteq> [] \<or> newMultiPvExp st \<noteq> [])"

text \<open>The loop of \<open>find_best_entry\<close>: keep the entry that compares greater than the best so far.\<close>

fun best_walk :: "memory \<Rightarrow> addr option \<Rightarrow> addr list \<Rightarrow> addr option" where
  "best_walk h best [] = best"
| "best_walk h best (c # cs) =
     best_walk h (case best of None \<Rightarrow> Some c
                  | Some b \<Rightarrow> if 0 <s compare (h c) (h b) then Some c else Some b) cs"

section \<open>Files, streams and the console\<close>

text \<open>
  A file is its sequence of bytes (\<open>char\<close>).  The world outside the process is what the
  stream and \<open>stdio\<close> calls of the source consult: the files by path, whether a path may
  be opened for writing, removed or renamed, how many bytes the disk still takes, whether
  the device delivers a read at a given offset, whether \<open>malloc\<close> grants a request, and
  \<open>Utility::map_path\<close> (not among the sources), kept as a field.  Info strings go to the
  console; the numbers printed in them are left out.
\<close>

datatype info =
    Could_not_open string
  | File_is_empty string
  | Signature_alloc_failed
  | Signature_read_failed
  | Not_a_valid_experience_file string
  | Importing_experience_version nat string
  | Failed_to_allocate string
  | Failed_to_read_entry
  | Upgrading_experience_file string nat nat
  | Load_statistics string
  | Failed_to_open_for_writing string
  | Failed_to_write_signature string
  | Failed_to_save_entry string
  | Saved_all string
  | Saved_new string
  | Could_not_delete_backup string
  | Could_not_create_backup
  | Could_not_restore_backup string
  | Saved_on_quit

record World =
  files :: "string \<Rightarrow> string option"
  writable :: "string \<Rightarrow> bool"
  disk_free :: nat
  read_ok :: "nat \<Rightarrow> bool"
  alloc_ok :: "nat \<Rightarrow> bool"
  map_path :: "string \<Rightarrow> string"
  console :: "info list"

definition say :: "info \<Rightarrow> World \<Rightarrow> World" where
  "say m w = w\<lparr>console := console w @ [m]\<rparr>"

definition file_exists :: "World \<Rightarrow> string \<Rightarrow> bool" where
  "file_exists w p = (files w p \<noteq> None)"

definition fs_remove :: "string \<Rightarrow> World \<Rightarrow> bool \<times> World" where
  "fs_remove p w =
     (if files w p \<noteq> None \<and> writable w p then (True, w\<lparr>files := (files w)(p := None)\<rparr>)
      else (False, w))"

definition fs_rename :: "string \<Rightarrow> string \<Rightarrow> World \<Rightarrow> bool \<times> World" where
  "fs_rename a b w =
     (if files w a \<noteq> None \<and> writable w a \<and> writable w b
      then (True, w\<lparr>files := (files w)(b := files w a, a := None)\<rparr>)
      else (False, w))"

text \<open>\<open>istream::read\<close> of \<open>n\<close> bytes at an offset: fails at the end of the data or on a device error.\<close>

definition stream_read :: "World \<Rightarrow> string \<Rightarrow> nat \<Rightarrow> nat \<Rightarrow> string option" where
  "stream_read w content off n =
     (if off + n \<le> length content \<and> read_ok w off then Some (take n (drop off content))
      else None)"

text \<open>
  The output stream of \<open>_save\<close> is opened with \<open>ios::app\<close>: every write goes to the end
  of the file.  A write that does not fit fails and leaves the stream in the failed state.
  The buffer that the stream library keeps between \<open>write\<close> and the file is not
  represented: a write reaches the file, or fails, when it is issued.  The properties
  below that speak of the file assume a disk with room for everything written.
\<close>

record Writer =
  w_world :: World
  w_good :: bool
  w_buf :: string

definition file_bytes :: "World \<Rightarrow> string \<Rightarrow> string" where
  "file_bytes w p = (case files w p of None \<Rightarrow> [] | Some b \<Rightarrow> b)"

definition stream_write :: "string \<Rightarrow> string \<Rightarrow> Writer \<Rightarrow> Writer" where
  "stream_write p data wr =
     (let w = w_world wr in
      if w_good wr \<and> length data \<le> disk_free w
      then wr\<lparr>w_world := w\<lparr>files := (files w)(p \<mapsto> file_bytes w p @ data),
                               disk_free := disk_free w - length data\<rparr>\<rparr>
      else wr\<lparr>w_good := False\<rparr>)"

subsection \<open>The memory image of an entry\<close>

text \<open>Host byte order is little-endian: the low byte first.\<close>

fun le_bytes :: "nat \<Rightarrow> int \<Rightarrow> string" where
  "le_bytes 0 x = []"
| "le_bytes (Suc n) x = char_of x # le_bytes n (x div 256)"

fun le_val :: "string \<Rightarrow> int" where
  "le_val [] = 0"
| "le_val (c # cs) = of_char c + 256 * le_val cs"

definition entry_bytes :: "ExpEntry \<Rightarrow> string" where
  "entry_bytes e =
     le_bytes 8 (uint (key e)) @ le_bytes 4 (uint (move e)) @ le_bytes 4 (uint (value e))
     @ le_bytes 4 (uint (depth e)) @ le_bytes 2 (uint (count e)) @ le_bytes 2 (uint (padding e))"

definition le_word :: "string \<Rightarrow> 'a::len word" where
  "le_word b = word_of_int (le_val b)"

definition bytes_entry :: "string \<Rightarrow> ExpEntry" where
  "bytes_entry b =
     \<lparr>key = le_word (take 8 b),
      move = le_word (take 4 (drop 8 b)),
      value = le_word (take 4 (drop 12 b)),
      depth = le_word (take 4 (drop 16 b)),
      count = le_word (take 2 (drop 20 b)),
      padding = le_word (take 2 (drop 22 b))\<rparr>"

section \<open>Format codecs\<close>

datatype reader = V1 | V2

fun get_version :: "reader \<Rightarrow> nat" where
  "get_version V1 = 1"
| "get_version V2 = 2"

fun ExperienceSignature :: "reader \<Rightarrow> string" where
  "ExperienceSignature V1 = ''SugaR''"
| "ExperienceSignature V2 = ''SugaR Experience version 2''"

definition CurrentVersion :: nat where
  "CurrentVersion = 2"

text \<open>
  \<open>ExperienceReader::check_signature_set_count\<close>.  The lengths are \<open>usize\<close>: the
  subtraction wraps.  The result is the entry count when the reader matches.
\<close>

definition check_signature_set_count ::
    "string \<Rightarrow> string \<Rightarrow> nat \<Rightarrow> World \<Rightarrow> 64 word option \<times> World" where
  "check_signature_set_count content signature entrySize w =
     (let inputLength = (of_nat (length content) :: 64 word);
          entriesDataLength = inputLength - of_nat (length signature);
          entriesCount = entriesDataLength div of_nat entrySize
      in if entriesCount * of_nat entrySize \<noteq> entriesDataLength then (None, w)
         else if signature = [] then (Some entriesCount, w)
         else if inputLength < of_nat (length signature) then (None, w)
         else if \<not> alloc_ok w (length signature) then (None, say Signature_alloc_failed w)
         else (case stream_read w content 0 (length signature) of
                 None \<Rightarrow> (None, say Signature_read_failed w)
               | Some sigBuffer \<Rightarrow>
                   (if sigBuffer = signature then Some entriesCount else None, w)))"

definition check_signature :: "reader \<Rightarrow> string \<Rightarrow> World \<Rightarrow> 64 word option \<times> World" where
  "check_signature r content w = check_signature_set_count content (ExperienceSignature r) 24 w"

text \<open>
  \<open>read\<close> of the two readers, into the entry at address \<open>a\<close>.  V2 copies the 24 bytes over
  the entry.  V1 reads them into its own record and assigns key, move, value and depth,
  sets \<open>count = 1\<close> and leaves the padding of the target as it was.
\<close>

fun reader_read :: "reader \<Rightarrow> World \<Rightarrow> string \<Rightarrow> nat \<Rightarrow> addr \<Rightarrow> memory \<Rightarrow> memory option" where
  "reader_read V2 w content off a h =
     (case stream_read w content off 24 of
        None \<Rightarrow> None
      | Some b \<Rightarrow> Some (h(a := bytes_entry b)))"
| "reader_read V1 w content off a h =
     (case stream_read w content off 24 of
        None \<Rightarrow> None
      | Some b \<Rightarrow>
          Some (h(a := (h a)\<lparr>key := key (bytes_entry b), move := move (bytes_entry b),
                              value := value (bytes_entry b), depth := depth (bytes_entry b),
                              count := 1\<rparr>)))"

section \<open>Saving\<close>

definition WriteBufferSize :: nat where
  "WriteBufferSize = 1024 * 1024 * 16"

text \<open>The lambda \<open>write_entry\<close> of \<open>_save\<close>; the flag returned is \<open>success\<close>.\<close>

definition write_entry :: "string \<Rightarrow> ExpEntry option \<Rightarrow> bool \<Rightarrow> Writer \<Rightarrow> bool \<times> Writer" where
  "write_entry p ex force wr =
     (let wr1 = (case ex of None \<Rightarrow> wr | Some e \<Rightarrow> wr\<lparr>w_buf := w_buf wr @ entry_bytes e\<rparr>)
      in if force \<or> WriteBufferSize \<le> length (w_buf wr1)
         then (let wr2 = stream_write p (w_buf wr1) wr1 in (w_good wr2, wr2\<lparr>w_buf := []\<rparr>))
         else (True, wr1))"

definition clear_new_exp :: "ExperienceData \<Rightarrow> ExperienceData" where
  "clear_new_exp st =
     st\<lparr>oldExpData := oldExpData st @ newPvExp st @ newMultiPvExp st,
        newPvExp := [], newMultiPvExp := []\<rparr>"

text \<open>Full save: \<open>link_entry\<close> for every staged entry, PV first.\<close>

fun link_all :: "addr list \<Rightarrow> ExperienceData \<Rightarrow> ExperienceData" where
  "link_all [] st = st"
| "link_all (e # es) st = link_all es (snd (link_entry e st))"

text \<open>The state in which the full save walks the index: the staged entries linked, PV first.\<close>

definition link_staged :: "ExperienceData \<Rightarrow> ExperienceData" where
  "link_staged st = link_all (newMultiPvExp st) (link_all (newPvExp st) st)"

text \<open>Full save, per chain: the maximum count, the scaling, the writing.\<close>

fun chain_max_count :: "memory \<Rightarrow> addr list \<Rightarrow> u16 \<Rightarrow> u16" where
  "chain_max_count h [] maxCount = maxCount"
| "chain_max_count h (a # as) maxCount = chain_max_count h as (max maxCount (count (h a)))"

fun scale_counts :: "u16 \<Rightarrow> addr list \<Rightarrow> memory \<Rightarrow> memory" where
  "scale_counts scale [] h = h"
| "scale_counts scale (a # as) h =
     scale_counts scale as (h(a := (h a)\<lparr>count := max (count (h a) div scale) 1\<rparr>))"

fun write_chain :: "string \<Rightarrow> memory \<Rightarrow> addr list \<Rightarrow> Writer \<Rightarrow> bool \<times> Writer" where
  "write_chain p h [] wr = (True, wr)"
| "write_chain p h (a # as) wr =
     (if MinDepth \<le>s depth (h a)
      then (case write_entry p (Some (h a)) False wr of
              (False, wr1) \<Rightarrow> (False, wr1)
            | (True, wr1) \<Rightarrow> write_chain p h as wr1)
      else write_chain p h as wr)"

fun save_chains ::
    "string \<Rightarrow> (ExpKey \<times> addr list) list \<Rightarrow> memory \<Rightarrow> Writer \<Rightarrow> bool \<times> memory \<times> Writer" where
  "save_chains p [] h wr = (True, h, wr)"
| "save_chains p ((k, chain) # xs) h wr =
     (let scale = 1 + chain_max_count h chain 0 div 128;
          h1 = scale_counts scale chain h
      in case write_chain p h1 chain wr of
           (False, wr1) \<Rightarrow> (False, h1, wr1)
         | (True, wr1) \<Rightarrow> save_chains p xs h1 wr1)"

text \<open>
  Incremental save.  \<open>km_hash\<close> copies the raw bytes of the move into a 64-bit integer
  and mixes it with the key; \<open>seen\<close> is the set of these 64-bit values.
\<close>

definition km_hash :: "ExpEntry \<Rightarrow> 64 word" where
  "km_hash e = key e XOR (ucast (move e) * 0x9E3779B185EBCA87)"

fun save_new :: "string \<Rightarrow> memory \<Rightarrow> addr list \<Rightarrow> 64 word list \<Rightarrow> Writer
                 \<Rightarrow> bool \<times> 64 word list \<times> Writer" where
  "save_new p h [] seen wr = (True, seen, wr)"
| "save_new p h (a # as) seen wr =
     (if depth (h a) <s MinDepth then save_new p h as seen wr
      else if km_hash (h a) \<in> set seen then save_new p h as seen wr
      else (case write_entry p (Some (h a)) False wr of
              (False, wr1) \<Rightarrow> (False, km_hash (h a) # seen, wr1)
            | (True, wr1) \<Rightarrow> save_new p h as (km_hash (h a) # seen) wr1))"

text \<open>
  The head of \<open>_save\<close>, once \<open>out.open\<close> has succeeded: the file exists from then on, and
  a file of length zero receives the signature.
\<close>

definition open_stream :: "string \<Rightarrow> World \<Rightarrow> Writer" where
  "open_stream p w =
     (let w0 = (if files w p = None then w\<lparr>files := (files w)(p \<mapsto> [])\<rparr> else w);
          wr0 = \<lparr>w_world = w0, w_good = True, w_buf = []\<rparr>
      in if length (file_bytes w0 p) = 0 then stream_write p (ExperienceSignature V2) wr0
         else wr0)"

text \<open>\<open>ExperienceData::_save\<close>.\<close>

definition save_impl :: "string \<Rightarrow> bool \<Rightarrow> World \<times> ExperienceData \<Rightarrow> bool \<times> World \<times> ExperienceData" where
  "save_impl fn saveAll = (\<lambda>(w, st).
     let p = map_path w fn in
     if \<not> writable w p then (False, say (Failed_to_open_for_writing fn) w, st)
     else
       let wr1 = open_stream p w
       in if \<not> w_good wr1 then (False, say (Failed_to_write_signature fn) (w_world wr1), st)
          else if saveAll then
            (let st1 = link_staged st
             in case save_chains p (mainExp st1) (heap st1) wr1 of
                  (False, h2, wr2) \<Rightarrow>
                    (False, say (Failed_to_save_entry fn) (w_world wr2), st1\<lparr>heap := h2\<rparr>)
                | (True, h2, wr2) \<Rightarrow>
                    (let wr3 = wr2\<lparr>w_world := say (Saved_all fn) (w_world wr2)\<rparr>;
                         wr4 = snd (write_entry p None True wr3)
                     in (True, w_world wr4, clear_new_exp (st1\<lparr>heap := h2\<rparr>))))
          else
            (case save_new p (heap st) (newPvExp st @ newMultiPvExp st) [] wr1 of
               (False, seen, wr2) \<Rightarrow> (False, say (Failed_to_save_entry fn) (w_world wr2), st)
             | (True, seen, wr2) \<Rightarrow>
                 (let wr3 = wr2\<lparr>w_world := say (Saved_new fn) (w_world wr2)\<rparr>;
                      wr4 = snd (write_entry p None True wr3)
                  in (True, w_world wr4, clear_new_exp st))))"

text \<open>
  \<open>ExperienceData::wait_for_load_finished\<close> waits on the condition variable until
  \<open>_loading\<close> is false and then yields \<open>loading_result()\<close>.  The flag is lowered by the
  loader thread only, once \<open>_load\<close> has returned.  No other thread runs in this model:
  with \<open>_loading\<close> raised the wait never ends, which is the value \<open>None\<close>.
\<close>

definition wait_for_load_finished :: "ExperienceData \<Rightarrow> bool option" where
  "wait_for_load_finished st = (if loading st then None else Some (loadingResult st))"

text \<open>
  \<open>ExperienceData::save\<close>.  Step 1 (only for \<open>saveAll\<close> and an existing file) moves the
  file to \<open><path>.bak\<close>, deleting an older backup first; an empty backup name records
  that there is no backup.  Step 2a moves the backup back when \<open>_save\<close> failed.
\<close>

definition make_backup :: "string \<Rightarrow> World \<Rightarrow> string \<times> World" where
  "make_backup expFilename w =
     (let b0 = expFilename @ ''.bak'';
          (b1, w1) =
            (if file_exists w b0 then
               (case fs_remove b0 w of
                  (False, wa) \<Rightarrow> ([], say (Could_not_delete_backup b0) wa)
                | (True, wa) \<Rightarrow> (b0, wa))
             else (b0, w))
      in if b1 \<noteq> [] then
           (case fs_rename expFilename b1 w1 of
              (False, wb) \<Rightarrow> ([], say Could_not_create_backup wb)
            | (True, wb) \<Rightarrow> (b1, wb))
         else (b1, w1))"

definition restore_backup :: "string \<Rightarrow> string \<Rightarrow> World \<Rightarrow> World" where
  "restore_backup backupExpFilename expFilename w =
     (if backupExpFilename \<noteq> [] then
        (case fs_rename backupExpFilename expFilename w of
           (False, wc) \<Rightarrow> say (Could_not_restore_backup backupExpFilename) wc
         | (True, wc) \<Rightarrow> wc)
      else w)"

text \<open>The body of \<open>save\<close> from the early return on: what it does once it is past the wait.\<close>

definition save_steps :: "string \<Rightarrow> bool \<Rightarrow> World \<times> ExperienceData \<Rightarrow> World \<times> ExperienceData" where
  "save_steps fn saveAll = (\<lambda>(w, st).
     if \<not> has_new_exp st \<and> (\<not> saveAll \<or> mainExp st = []) then (w, st)
     else
       let expFilename = map_path w fn;
           (backupExpFilename, w2) =
             (if saveAll \<and> file_exists w expFilename then make_backup expFilename w
              else ([], w))
       in case save_impl fn saveAll (w2, st) of
            (True, w3, st3) \<Rightarrow> (w3, st3)
          | (False, w3, st3) \<Rightarrow> (restore_backup backupExpFilename expFilename w3, st3))"

text \<open>
  The whole of \<open>save\<close>: unless \<open>ignoreLoadingCheck\<close> is set it first waits for the loader,
  and does not return when that wait does not.
\<close>

definition data_save ::
    "string \<Rightarrow> bool \<Rightarrow> bool \<Rightarrow> World \<times> ExperienceData \<Rightarrow> (World \<times> ExperienceData) option" where
  "data_save fn saveAll ignoreLoadingCheck = (\<lambda>(w, st).
     if ignoreLoadingCheck then Some (save_steps fn saveAll (w, st))
     else (case wait_for_load_finished st of
             None \<Rightarrow> None
           | Some res \<Rightarrow> Some (save_steps fn saveAll (w, st))))"

section \<open>Loading\<close>

text \<open>The readers are tried from the most recent to the oldest.\<close>

fun select_reader :: "reader list \<Rightarrow> string \<Rightarrow> World \<Rightarrow> (reader \<times> 64 word) option \<times> World" where
  "select_reader [] content w = (None, w)"
| "select_reader (r # rs) content w =
     (case check_signature r content w of
        (Some n, w1) \<Rightarrow> (Some (r, n), w1)
      | (None, w1) \<Rightarrow> select_reader rs content w1)"

text \<open>
  The loop of \<open>_load\<close> over the pool.  The flag is false when a read failed; a raised
  \<open>abortLoading\<close> leaves the loop like its end does.  The flag is read once per entry and
  no other thread writes it in this model.
\<close>

fun read_entries :: "reader \<Rightarrow> World \<Rightarrow> string \<Rightarrow> nat \<Rightarrow> addr list \<Rightarrow> ExperienceData
                     \<Rightarrow> bool \<times> ExperienceData" where
  "read_entries r w content off [] st = (True, st)"
| "read_entries r w content off (a # as) st =
     (if abortLoading st then (True, st)
      else (case reader_read r w content off a (heap st) of
              None \<Rightarrow> (False, st)
            | Some h1 \<Rightarrow>
                read_entries r w content (off + 24) as (snd (link_entry a (st\<lparr>heap := h1\<rparr>)))))"

text \<open>
  \<open>ExperienceData::_load\<close>.  The pool is one \<open>malloc\<close> of \<open>expCount\<close> entries of 32 bytes
  (\<open>sizeof(ExpEntryEx)\<close>), here the next \<open>expCount\<close> addresses with whatever the memory
  holds there.  After a failed read the pool is released (\<open>delete expData\<close>).  \<open>_load\<close>
  runs in the loader thread, between \<open>_loading = true\<close> and \<open>_loading = false\<close> of
  \<open>load\<close>; it returns only if the \<open>save\<close> it calls for an upgrade does.
\<close>

definition load_impl ::
    "string \<Rightarrow> World \<times> ExperienceData \<Rightarrow> (bool \<times> World \<times> ExperienceData) option" where
  "load_impl fn = (\<lambda>(w, st).
     case files w (map_path w fn) of
       None \<Rightarrow> Some (False, say (Could_not_open fn) w, st)
     | Some content \<Rightarrow>
         if length content = 0 then Some (False, say (File_is_empty fn) w, st)
         else
           (case select_reader [V2, V1] content w of
              (None, w1) \<Rightarrow> Some (False, say (Not_a_valid_experience_file fn) w1, st)
            | (Some (r, cnt), w1) \<Rightarrow>
                let w2 = (if get_version r \<noteq> CurrentVersion
                          then say (Importing_experience_version (get_version r) fn) w1 else w1);
                    expCount = unat cnt
                in if \<not> alloc_ok w2 (expCount * 32)
                   then Some (False, say (Failed_to_allocate fn) w2, st)
                   else
                     let pool = [next_addr st ..< next_addr st + expCount];
                         st1 = st\<lparr>next_addr := next_addr st + expCount\<rparr>
                     in case read_entries r w2 content (length (ExperienceSignature r)) pool st1 of
                          (False, st2) \<Rightarrow>
                            Some (False, say Failed_to_read_entry w2, st2\<lparr>freed := freed st2 @ pool\<rparr>)
                        | (True, st2) \<Rightarrow>
                            let st3 = st2\<lparr>expData := expData st2 @ [pool]\<rparr>
                            in if abortLoading st3 then Some (False, w2, st3)
                               else
                                 (case (if get_version r \<noteq> CurrentVersion
                                        then data_save fn True True
                                               (say (Upgrading_experience_file fn (get_version r) CurrentVersion) w2, st3)
                                        else Some (w2, st3)) of
                                    None \<Rightarrow> None
                                  | Some (w4, st4) \<Rightarrow>
                                      if abortLoading st4 then Some (False, w4, st4)
                                      else Some (True, say (Load_statistics fn) w4, st4))))"

section \<open>Global experience functions and write gates\<close>

text \<open>
  The globals of namespace \<open>Experience\<close>, the option \<open>Experience Readonly\<close>, the
  \<open>std::once_flag\<close> of the UCI layer, and the world.
\<close>

record Global =
  currentExperience :: "ExperienceData option"
  experienceEnabled :: bool
  learningPaused :: bool
  g_benchMode :: bool
  g_benchSingleShot :: bool
  Experience_Readonly :: bool
  exp_once :: bool
  world :: World

definition pause_learning :: "Global \<Rightarrow> Global" where
  "pause_learning g = g\<lparr>learningPaused := True\<rparr>"

definition resume_learning :: "Global \<Rightarrow> Global" where
  "resume_learning g = g\<lparr>learningPaused := False\<rparr>"

text \<open>
  \<open>Experience::add_pv_experience\<close>: \<open>g_benchSingleShot.exchange(false)\<close> clears the flag
  and yields its old value.
\<close>

definition add_pv_experience :: "ExpKey \<Rightarrow> ExpMove \<Rightarrow> ExpValue \<Rightarrow> ExpDepth \<Rightarrow> Global \<Rightarrow> Global" where
  "add_pv_experience k m v d g =
     (case currentExperience g of
        None \<Rightarrow> g
      | Some st \<Rightarrow>
          if \<not> experienceEnabled g \<or> learningPaused g \<or> Experience_Readonly g then g
          else if g_benchMode g \<and> \<not> g_benchSingleShot g then g\<lparr>g_benchSingleShot := False\<rparr>
          else (if g_benchMode g then g\<lparr>g_benchSingleShot := False\<rparr> else g)
                 \<lparr>currentExperience := Some (data_add_pv_experience k m v d st)\<rparr>)"

definition add_multipv_experience :: "ExpKey \<Rightarrow> ExpMove \<Rightarrow> ExpValue \<Rightarrow> ExpDepth \<Rightarrow> Global \<Rightarrow> Global" where
  "add_multipv_experience k m v d g =
     (case currentExperience g of
        None \<Rightarrow> g
      | Some st \<Rightarrow>
          if g_benchMode g \<or> \<not> experienceEnabled g \<or> learningPaused g \<or> Experience_Readonly g
          then g
          else g\<lparr>currentExperience := Some (data_add_multipv_experience k m v d st)\<rparr>)"

text \<open>\<open>Experience::save\<close>; \<open>None\<close> when the controller's \<open>save\<close> does not return.\<close>

definition save :: "Global \<Rightarrow> Global option" where
  "save g =
     (case currentExperience g of
        None \<Rightarrow> Some g
      | Some st \<Rightarrow>
          if \<not> has_new_exp st \<or> Experience_Readonly g then Some g
          else (case data_save (filename st) False False (world g, st) of
                  None \<Rightarrow> None
                | Some (w1, st1) \<Rightarrow> Some (g\<lparr>currentExperience := Some st1, world := w1\<rparr>)))"

text \<open>\<open>Experience::probe\<close> and \<open>Experience::find_best_entry\<close>.\<close>

definition probe :: "Global \<Rightarrow> ExpKey \<Rightarrow> addr list option" where
  "probe g k = (case currentExperience g of None \<Rightarrow> None | Some st \<Rightarrow> data_probe st k)"

definition find_best_entry :: "Global \<Rightarrow> ExpKey \<Rightarrow> ExpEntry option" where
  "find_best_entry g k =
     (case currentExperience g of
        None \<Rightarrow> None
      | Some st \<Rightarrow>
          (case data_probe st k of
             None \<Rightarrow> None
           | Some chain \<Rightarrow> map_option (heap st) (best_walk (heap st) None chain)))"

text \<open>A run of calls from the search, in order.\<close>

datatype add_call =
    Add_pv ExpKey ExpMove ExpValue ExpDepth
  | Add_multipv ExpKey ExpMove ExpValue ExpDepth

fun run_call :: "add_call \<Rightarrow> Global \<Rightarrow> Global" where
  "run_call (Add_pv k m v d) g = add_pv_experience k m v d g"
| "run_call (Add_multipv k m v d) g = add_multipv_experience k m v d g"

fun run_calls :: "add_call list \<Rightarrow> Global \<Rightarrow> Global" where
  "run_calls [] g = g"
| "run_calls (c # cs) g = run_calls cs (run_call c g)"

fun first_pv :: "add_call list \<Rightarrow> (ExpKey \<times> ExpMove \<times> ExpValue \<times> ExpDepth) option" where
  "first_pv [] = None"
| "first_pv (Add_pv k m v d # cs) = Some (k, m, v, d)"
| "first_pv (Add_multipv k m v d # cs) = first_pv cs"

section \<open>The UCI loop (uci.cpp)\<close>

text \<open>
  \<open>ensure_exp_initialized\<close> runs its body under \<open>std::call_once\<close>.  The body (path
  normalisation through \<open>setoption\<close>, the Zobrist setup, \<open>Experience::init\<close>) calls into
  files that are not among the sources; it is the argument \<open>once_body\<close>.  The constructor
  of \<open>UCIEngine\<close> calls \<open>ensure_exp_initialized\<close>, so the flag is set before \<open>loop\<close> runs.
  \<open>engine.search_clear\<close> and \<open>engine.stop\<close> act on the search threads, which are no part
  of this state.  A handler returns when the \<open>save\<close> it calls does.
\<close>

definition ensure_exp_initialized :: "(Global \<Rightarrow> Global) \<Rightarrow> Global \<Rightarrow> Global" where
  "ensure_exp_initialized once_body g =
     (if exp_once g then g else (once_body g)\<lparr>exp_once := True\<rparr>)"

definition UCIEngine_constructor :: "(Global \<Rightarrow> Global) \<Rightarrow> Global \<Rightarrow> Global" where
  "UCIEngine_constructor once_body g = ensure_exp_initialized once_body g"

definition uci_ucinewgame :: "(Global \<Rightarrow> Global) \<Rightarrow> Global \<Rightarrow> Global option" where
  "uci_ucinewgame once_body g =
     (case save (ensure_exp_initialized once_body g) of
        None \<Rightarrow> None
      | Some g1 \<Rightarrow> Some (resume_learning g1))"

definition uci_quit :: "Global \<Rightarrow> Global option" where
  "uci_quit g =
     (case save g of
        None \<Rightarrow> None
      | Some g1 \<Rightarrow> Some (g1\<lparr>world := say Saved_on_quit (world g1)\<rparr>))"

section \<open>The compact-PGN importer: one move token\<close>

text \<open>
  The lambda \<open>tokenize\<close>: \<open>getline\<close> with a delimiter.  A field ends at the delimiter or
  at the end of the text; at the end of the text an empty field is not produced.
\<close>

fun tokenize_from :: "char \<Rightarrow> string \<Rightarrow> string \<Rightarrow> string list" where
  "tokenize_from d field [] = (if field = [] then [] else [field])"
| "tokenize_from d field (c # cs) =
     (if c = d then field # tokenize_from d [] cs else tokenize_from d (field @ [c]) cs)"

definition tokenize :: "string \<Rightarrow> char \<Rightarrow> string list" where
  "tokenize str d = tokenize_from d [] str"

text \<open>
  The loop \<open>while (_move.back() == '+' || ...) _move.pop_back()\<close>.  \<open>std::string::back\<close>
  on an empty string has undefined behaviour: that outcome is \<open>None\<close>.
\<close>

definition strip_chars :: "char set" where
  "strip_chars = {CHR ''+'', CHR ''#'', CHR 0x0D, CHR 0x0A}"

function cleanup_move :: "string \<Rightarrow> string option" where
  "cleanup_move s =
     (if s = [] then None
      else if last s \<in> strip_chars then cleanup_move (butlast s)
      else Some s)"
  by pat_completeness auto
termination
  by (relation "measure length") auto

declare cleanup_move.simps [simp del]

text \<open>
  \<open>UCIEngine::to_move\<close>: the first legal move whose UCI text equals the lower-cased
  string.  The legal moves of the position with their texts come from the move generator,
  which is not among the sources: they are the list \<open>legal\<close>.  \<open>None\<close> is \<open>Move::none()\<close>.
\<close>

definition to_lower_char :: "char \<Rightarrow> char" where
  "to_lower_char c =
     (if (65::nat) \<le> of_char c \<and> of_char c \<le> (90::nat) then char_of (of_char c + (32::nat)) else c)"

definition to_move :: "(string \<times> ExpMove) list \<Rightarrow> string \<Rightarrow> ExpMove option" where
  "to_move legal str = map_of legal (map to_lower_char str)"

text \<open>
  One iteration of the move loop of \<open>convert_compact_pgn_to_exp\<close>, up to the parsed move:
  the token is split at \<open>:\<close>, the move text cleaned and resolved.  The second component is
  \<open>numGamesWithErrors\<close>.
\<close>

datatype move_outcome = Undefined_behaviour | Game_rejected | Move_found ExpMove string string

definition parse_move_token ::
    "(string \<times> ExpMove) list \<Rightarrow> string \<Rightarrow> nat \<Rightarrow> move_outcome \<times> nat" where
  "parse_move_token legal token numGamesWithErrors =
     (let tok = tokenize token (CHR '':'');
          mv = (if tok \<noteq> [] then tok ! 0 else []);
          score = (if 2 \<le> length tok then tok ! 1 else []);
          dep = (if 3 \<le> length tok then tok ! 2 else [])
      in if 4 \<le> length tok then (Game_rejected, numGamesWithErrors + 1)
         else (case cleanup_move mv of
                 None \<Rightarrow> (Undefined_behaviour, numGamesWithErrors)
               | Some mv1 \<Rightarrow>
                   if mv1 = [] then (Game_rejected, numGamesWithErrors + 1)
                   else (case to_move legal mv1 of
                           None \<Rightarrow> (Game_rejected, numGamesWithErrors + 1)
                         | Some m \<Rightarrow> (Move_found m score dep, numGamesWithErrors))))"

section \<open>Well-formed indexes and what a save hands to the stream\<close>

text \<open>
  The shape that \<open>link_entry\<close> maintains: one chain per key, no address in two places,
  no empty chain, and every entry of a chain carries the key of the chain.
\<close>

definition index_addrs :: "ExperienceData \<Rightarrow> addr list" where
  "index_addrs st = concat (map snd (mainExp st))"

definition wf_index :: "ExperienceData \<Rightarrow> bool" where
  "wf_index st =
     (distinct (map fst (mainExp st)) \<and> distinct (index_addrs st)
      \<and> (\<forall>(k, chain) \<in> set (mainExp st). chain \<noteq> [] \<and> (\<forall>a \<in> set chain. key (heap st a) = k)))"

text \<open>
  The addresses that the loop of the incremental save passes to \<open>write_entry\<close>, in order:
  the loop \<open>save_new\<close> without the stream.
\<close>

fun batch_entries :: "memory \<Rightarrow> addr list \<Rightarrow> 64 word list \<Rightarrow> addr list" where
  "batch_entries h [] seen = []"
| "batch_entries h (a # as) seen =
     (if depth (h a) <s MinDepth then batch_entries h as seen
      else if km_hash (h a) \<in> set seen then batch_entries h as seen
      else a # batch_entries h as (km_hash (h a) # seen))"


text \<open>What a stream holds and still owes: the bytes of the file followed by the buffer.\<close>

definition pending :: "string \<Rightarrow> Writer \<Rightarrow> string" where
  "pending p wr = file_bytes (w_world wr) p @ w_buf wr"

definition has_room :: "Writer \<Rightarrow> nat \<Rightarrow> bool" where
  "has_room wr n = (w_good wr \<and> length (w_buf wr) + n \<le> disk_free (w_world wr))"

text \<open>Two worlds that differ at most in what the console shows.\<close>

definition same_disk :: "World \<Rightarrow> World \<Rightarrow> bool" where
  "same_disk w w' =
     (files w' = files w \<and> writable w' = writable w \<and> disk_free w' = disk_free w
      \<and> read_ok w' = read_ok w \<and> alloc_ok w' = alloc_ok w \<and> map_path w' = map_path w)"

section \<open>Concrete states used below\<close>

definition zero_memory :: memory where
  "zero_memory = (\<lambda>_. new_entry 0 0 0 0 0)"

text \<open>Three moves of one position, added in this order: values 100, 50, 75 at depth 4.\<close>

definition three_moves :: ExperienceData where
  "three_moves =
     data_add_pv_experience 0x1111 3 75 4
       (data_add_pv_experience 0x1111 2 50 4
          (data_add_pv_experience 0x1111 1 100 4 (new_ExperienceData zero_memory 0)))"

text \<open>A world with no file, where everything is permitted and the disk takes 1000 bytes.\<close>

definition plain_world :: World where
  "plain_world =
     \<lparr>files = (\<lambda>_. None), writable = (\<lambda>_. True), disk_free = 1000, read_ok = (\<lambda>_. True),
      alloc_ok = (\<lambda>_. True), map_path = (\<lambda>p. p), console = []\<rparr>"

text \<open>A bench run about to start: bench mode on, the single-shot token set, all gates open.\<close>

definition bench_global :: Global where
  "bench_global =
     \<lparr>currentExperience = Some (new_ExperienceData zero_memory 0), experienceEnabled = True,
      learningPaused = False, g_benchMode = True, g_benchSingleShot = True,
      Experience_Readonly = False, exp_once = True, world = plain_world\<rparr>"

text \<open>One staged entry, and the option \<open>Experience Readonly\<close> set.\<close>

definition readonly_global :: Global where
  "readonly_global =
     \<lparr>currentExperience =
        Some (data_add_pv_experience 0x1111 1 100 10
               ((new_ExperienceData zero_memory 0)\<lparr>filename := ''x.exp''\<rparr>)),
      experienceEnabled = True, learningPaused = True, g_benchMode = False,
      g_benchSingleShot = False, Experience_Readonly = True, exp_once = True,
      world = plain_world\<rparr>"

text \<open>A one-shot body that would delete every file, were it run.\<close>

definition wiping_body :: "Global \<Rightarrow> Global" where
  "wiping_body g = g\<lparr>world := (world g)\<lparr>files := (\<lambda>_. None)\<rparr>\<rparr>"

text \<open>A chain of two entries with counts 300 and 5; the second is shallower than \<open>MinDepth\<close>.\<close>

definition scaling_data :: ExperienceData where
  "scaling_data =
     (new_ExperienceData
        (zero_memory(0 := new_entry 0x1111 1 100 10 300, 1 := new_entry 0x1111 2 50 3 5)) 2)
       \<lparr>filename := ''x.exp'', mainExp := [(0x1111, [0, 1])]\<rparr>"

text \<open>
  Two staged PV entries of different positions and moves whose \<open>km_hash\<close> is the same:
  the second key is the first one XOR \<open>1 * c\<close> XOR \<open>2 * c\<close> for the multiplier \<open>c\<close> of
  \<open>km_hash\<close>.
\<close>

definition collision_data :: ExperienceData where
  "collision_data =
     data_add_pv_experience 12918746795603742360 2 30 10
       (data_add_pv_experience 0x1111111111111111 1 20 10
          ((new_ExperienceData zero_memory 0)\<lparr>filename := ''x.exp''\<rparr>))"







text \<open>
  A V2 file of two entries on a device that fails every read from offset 50 on, that is,
  the read of the second entry.
\<close>

definition faulty_world :: World where
  "faulty_world =
     plain_world\<lparr>files := (\<lambda>_. None)(''v2.exp'' \<mapsto>
                     ExperienceSignature V2 @ entry_bytes (new_entry 9 3 10 12 1)
                       @ entry_bytes (new_entry 8 4 (- 20) 8 1)),
                  read_ok := (\<lambda>off. off < 50)\<rparr>"

text \<open>A V1 file that holds the signature and no entry.\<close>

definition empty_v1_world :: World where
  "empty_v1_world = plain_world\<lparr>files := (\<lambda>_. None)(''v1.exp'' \<mapsto> ExperienceSignature V1)\<rparr>"

text \<open>
  The image of a \<open>V1::ExpEntry\<close>: the 20 data bytes and the padding \<open>00 FF 00 FF\<close>, which
  is what a V2 entry with count and padding \<open>0xFF00\<close> looks like.
\<close>

definition v1_record :: "ExpKey \<Rightarrow> ExpMove \<Rightarrow> ExpValue \<Rightarrow> ExpDepth \<Rightarrow> string" where
  "v1_record k m v d =
     entry_bytes \<lparr>key = k, move = m, value = v, depth = d, count = 0xFF00, padding = 0xFF00\<rparr>"

text \<open>
  The controller as \<open>load\<close> hands it to the loader thread: empty, with \<open>_loading\<close> raised.
\<close>

definition loader_start :: ExperienceData where
  "loader_start = (new_ExperienceData zero_memory 0)\<lparr>loading := True\<rparr>"

text \<open>
  A V1 file of two moves of one position, and the controller after both have been read
  and linked.
\<close>

definition v1_content :: string where
  "v1_content = ExperienceSignature V1 @ v1_record 9 3 10 12 @ v1_record 9 4 (- 20) 8"

definition v1_world :: World where
  "v1_world = plain_world\<lparr>files := (\<lambda>_. None)(''v1.exp'' \<mapsto> v1_content)\<rparr>"

definition v1_parsed :: ExperienceData where
  "v1_parsed =
     (new_ExperienceData
        (zero_memory(0 := new_entry 9 3 10 12 1, 1 := new_entry 9 4 (- 20) 8 1)) 2)
       \<lparr>mainExp := [(9, [0, 1])], loading := True\<rparr>"

section \<open>Properties\<close>

lemma sint_take_id:
  assumes "- (2 ^ 31) \<le> (k::int)" "k < 2 ^ 31"
  shows "sint (word_of_int k :: 32 word) = k"
proof -
  have "signed_take_bit (31::nat) k = k"
    using assms by (intro signed_take_bit_int_eq_self) auto
  then show ?thesis by (simp add: sint_sbintrunc')
qed

lemma int_div_2_trunc:
  assumes "- (2 ^ 31) \<le> sint a + sint b" "sint a + sint b < 2 ^ 31"
  shows "sint (int_div (a + b) 2) = sgn (sint a + sint b) * (\<bar>sint a + sint b\<bar> div 2)"
proof -
  define K where "K = sgn (sint a + sint b) * (\<bar>sint a + sint b\<bar> div 2)"
  have "signed_take_bit (31::nat) (sint a + sint b) = sint a + sint b"
    using assms by (intro signed_take_bit_int_eq_self) auto
  then have s: "sint (a + b) = sint a + sint b"
    by (simp add: sint_word_add)
  have r: "- (2 ^ 31) \<le> K" "K < 2 ^ 31"
    using assms by (auto simp: sgn_if K_def)
  have "sint (a + b) sdiv sint (2 :: 32 word) = K"
    by (simp add: s signed_divide_int_def K_def)
  then have "int_div (a + b) 2 = word_of_int K"
    unfolding int_div_def by (rule arg_cong)
  then show ?thesis
    using sint_take_id [OF r] by (simp add: K_def)
qed

lemma unat_saturate:
  "unat (of_nat (min (unat (a::16 word) + unat (b::16 word)) 65535) :: 16 word)
     = min (unat a + unat b) 65535"
  by (simp add: unat_of_nat take_bit_nat_eq_self)

subsection \<open>Merge\<close>

text \<open>
  Claim C1.  For two entries with the same key and move, \<open>merge a b\<close> leaves in \<open>a\<close> the
  saturating 16-bit sum of the two counts and keeps key and move.  At equal depths the
  value becomes \<open>(a.value + b.value) / 2\<close>, which, when the sum fits an \<open>int\<close>, is the sum
  halved with truncation towards zero; when \<open>a\<close> is shallower it takes value and depth of
  \<open>b\<close>; otherwise value and depth stay.  Seeding \<open>(k, m, -300, 4)\<close> and adding
  \<open>(k, m, 500, 20)\<close> leaves a chain of one entry with value 500, depth 20, count 2.
\<close>

theorem C1_merge:
  "key a = key b \<Longrightarrow> move a = move b \<Longrightarrow>
   unat (count (merge a b)) = min (unat (count a) + unat (count b)) 65535
   \<and> key (merge a b) = key a \<and> move (merge a b) = move a
   \<and> (depth a = depth b \<longrightarrow>
        value (merge a b) = int_div (value a + value b) 2 \<and> depth (merge a b) = depth a
        \<and> (- (2 ^ 31) \<le> sint (value a) + sint (value b) \<and> sint (value a) + sint (value b) < 2 ^ 31
             \<longrightarrow> sint (value (merge a b))
                 = sgn (sint (value a) + sint (value b)) * (\<bar>sint (value a) + sint (value b)\<bar> div 2)))
   \<and> (depth a \<noteq> depth b \<and> depth a <s depth b \<longrightarrow>
        value (merge a b) = value b \<and> depth (merge a b) = depth b)
   \<and> (depth a \<noteq> depth b \<and> \<not> depth a <s depth b \<longrightarrow>
        value (merge a b) = value a \<and> depth (merge a b) = depth a)
   \<and> mainExp (data_add_pv_experience k m 500 20 (data_add_pv_experience k m (- 300) 4 (new_ExperienceData h n)))
       = [(k, [n])]
   \<and> heap (data_add_pv_experience k m 500 20 (data_add_pv_experience k m (- 300) 4 (new_ExperienceData h n))) n
       = new_entry k m 500 20 2"
proof -
  have c: "unat (count (merge a b)) = min (unat (count a) + unat (count b)) 65535"
    by (simp add: merge_def Let_def unat_saturate)
  have v: "depth a = depth b \<Longrightarrow> - (2 ^ 31) \<le> sint (value a) + sint (value b)
           \<Longrightarrow> sint (value a) + sint (value b) < 2 ^ 31
           \<Longrightarrow> sint (value (merge a b))
                 = sgn (sint (value a) + sint (value b)) * (\<bar>sint (value a) + sint (value b)\<bar> div 2)"
    using int_div_2_trunc [of "value a" "value b"] by (simp add: merge_def Let_def)
  have e: "mainExp (data_add_pv_experience k m 500 20 (data_add_pv_experience k m (- 300) 4 (new_ExperienceData h n)))
       = [(k, [n])]
   \<and> heap (data_add_pv_experience k m 500 20 (data_add_pv_experience k m (- 300) 4 (new_ExperienceData h n))) n
       = new_entry k m 500 20 2"
    by (simp add: data_add_pv_experience_def alloc_entry_def link_entry_def new_ExperienceData_def
        new_entry_def Let_def merge_def word_sless_alt)
  show ?thesis
    using c v e by (simp add: merge_def Let_def)
qed

theorem C1_merge_witness:
  "key (new_entry 9 3 (- 7) 5 65535) = key (new_entry 9 3 4 5 3)
   \<and> move (new_entry 9 3 (- 7) 5 65535) = move (new_entry 9 3 4 5 3)
   \<and> depth (new_entry 9 3 (- 7) 5 65535) = depth (new_entry 9 3 4 5 3)
   \<and> unat (count (merge (new_entry 9 3 (- 7) 5 65535) (new_entry 9 3 4 5 3))) = 65535
   \<and> sint (value (merge (new_entry 9 3 (- 7) 5 65535) (new_entry 9 3 4 5 3))) = - 1"
  using C1_merge [of "new_entry 9 3 (- 7) 5 65535" "new_entry 9 3 4 5 3" 9 3 zero_memory 0]
  by (simp add: new_entry_def int_div_def signed_divide_int_def)

subsection \<open>Chain order\<close>

text \<open>
  Claim C2 says that after any sequence of links every two neighbours of a chain satisfy
  \<open>compare e\<^sub>i e\<^sub>i\<^sub>+\<^sub>1 \<ge> 0\<close>.  Three links suffice to break it: with values 100, 50 and 75
  (same depth and count) the third entry compares greater than the second, which is not
  the head, and is placed behind it.  The chain is then 100, 50, 75 and
  \<open>compare\<close> of its second and third entry is \<open>-25\<close>.
\<close>

theorem C2_chain_not_ordered:
  "mainExp three_moves = [(0x1111, [0, 1, 2])]
   \<and> heap three_moves 1 = new_entry 0x1111 2 50 4 1
   \<and> heap three_moves 2 = new_entry 0x1111 3 75 4 1
   \<and> sint (compare (heap three_moves 1) (heap three_moves 2)) = - 25"
  by (simp add: three_moves_def zero_memory_def data_add_pv_experience_def alloc_entry_def
      link_entry_def new_ExperienceData_def new_entry_def Let_def compare_def scaledValue_def
      int_div_def int_max_def word_sless_alt signed_divide_int_def)

subsection \<open>Write gates\<close>

lemma spent_token_update: "\<not> g_benchSingleShot g \<Longrightarrow> g\<lparr>g_benchSingleShot := False\<rparr> = g"
  by (cases g) simp

lemma bench_spent:
  "g_benchMode g \<Longrightarrow> \<not> g_benchSingleShot g \<Longrightarrow> run_calls cs g = g"
proof (induction cs)
  case Nil
  then show ?case by simp
next
  case (Cons c cs)
  have "run_call c g = g"
    using Cons.prems
    by (cases c) (auto simp: add_pv_experience_def add_multipv_experience_def spent_token_update
        split: option.splits)
  then show ?case using Cons by simp
qed

lemma bench_single_shot:
  assumes "g_benchMode g" "g_benchSingleShot g" "currentExperience g = Some st"
    "experienceEnabled g" "\<not> learningPaused g" "\<not> Experience_Readonly g"
  shows "run_calls cs g =
     (case first_pv cs of
        None \<Rightarrow> g
      | Some (k1, m1, v1, d1) \<Rightarrow>
          g\<lparr>g_benchSingleShot := False,
            currentExperience := Some (data_add_pv_experience k1 m1 v1 d1 st)\<rparr>)"
  using assms
proof (induction cs)
  case Nil
  then show ?case by simp
next
  case (Cons c cs)
  show ?case
  proof (cases c)
    case (Add_pv k m v d)
    let ?g1 = "g\<lparr>g_benchSingleShot := False,
            currentExperience := Some (data_add_pv_experience k m v d st)\<rparr>"
    have 1: "run_call c g = ?g1"
      using Cons.prems Add_pv by (simp add: add_pv_experience_def)
    have "run_calls cs ?g1 = ?g1"
      using Cons.prems by (intro bench_spent) simp_all
    then show ?thesis using 1 Add_pv by simp
  next
    case (Add_multipv k m v d)
    have "run_call c g = g"
      using Cons.prems Add_multipv by (simp add: add_multipv_experience_def)
    then show ?thesis using Cons Add_multipv by simp
  qed
qed

text \<open>
  Claim C4.  With \<open>Experience Readonly\<close> set, learning paused or the experience disabled,
  \<open>add_pv_experience\<close> and \<open>add_multipv_experience\<close> return the state they were given:
  staging, index and everything else.  In bench mode \<open>add_multipv_experience\<close> does the
  same.  In bench mode with the other gates open, any run of calls that starts with the
  single-shot token set ends in the state where exactly the first PV call of the run was
  carried out and the token is spent; started with the token spent, it changes nothing.
  (The calls are taken one after the other; the atomicity of the exchange between threads
  is not expressed.)
\<close>

theorem C4_write_gates:
  "(Experience_Readonly g \<or> learningPaused g \<or> \<not> experienceEnabled g \<longrightarrow>
      add_pv_experience k m v d g = g \<and> add_multipv_experience k m v d g = g)
   \<and> (g_benchMode g \<longrightarrow> add_multipv_experience k m v d g = g)
   \<and> (g_benchMode g \<and> currentExperience g = Some st
        \<and> experienceEnabled g \<and> \<not> learningPaused g \<and> \<not> Experience_Readonly g \<longrightarrow>
        run_calls cs g =
          (if g_benchSingleShot g
           then (case first_pv cs of
                   None \<Rightarrow> g
                 | Some (k1, m1, v1, d1) \<Rightarrow>
                     g\<lparr>g_benchSingleShot := False,
                       currentExperience := Some (data_add_pv_experience k1 m1 v1 d1 st)\<rparr>)
           else g))"
proof -
  have a: "Experience_Readonly g \<or> learningPaused g \<or> \<not> experienceEnabled g \<Longrightarrow>
      add_pv_experience k m v d g = g \<and> add_multipv_experience k m v d g = g"
    by (auto simp: add_pv_experience_def add_multipv_experience_def split: option.splits)
  have b: "g_benchMode g \<Longrightarrow> add_multipv_experience k m v d g = g"
    by (simp add: add_multipv_experience_def split: option.splits)
  show ?thesis
    using a b bench_single_shot [of g st cs] bench_spent [of g cs] by auto
qed

theorem C4_write_gates_witness:
  "g_benchMode bench_global \<and> currentExperience bench_global = Some (new_ExperienceData zero_memory 0)
   \<and> experienceEnabled bench_global \<and> \<not> learningPaused bench_global
   \<and> \<not> Experience_Readonly bench_global \<and> g_benchSingleShot bench_global
   \<and> add_multipv_experience 5 6 7 8 bench_global = bench_global
   \<and> run_calls [Add_multipv 1 2 3 4, Add_pv 5 6 7 8, Add_pv 9 10 11 12, Add_multipv 13 14 15 16]
        bench_global
      = bench_global\<lparr>g_benchSingleShot := False,
          currentExperience := Some (data_add_pv_experience 5 6 7 8 (new_ExperienceData zero_memory 0))\<rparr>
   \<and> Experience_Readonly (bench_global\<lparr>Experience_Readonly := True\<rparr>)
   \<and> add_pv_experience 5 6 7 8 (bench_global\<lparr>Experience_Readonly := True\<rparr>)
      = bench_global\<lparr>Experience_Readonly := True\<rparr>"
  using C4_write_gates [of bench_global 5 6 7 8 "new_ExperienceData zero_memory 0"
          "[Add_multipv 1 2 3 4, Add_pv 5 6 7 8, Add_pv 9 10 11 12, Add_multipv 13 14 15 16]"]
        C4_write_gates [of "bench_global\<lparr>Experience_Readonly := True\<rparr>" 5 6 7 8
          "new_ExperienceData zero_memory 0" "[]"]
  by (simp add: bench_global_def)

subsection \<open>The top-level save\<close>

text \<open>
  Claim C10.  \<open>Experience::save\<close> returns, with the state it was given (files, console,
  index and staging included), when there is no current experience, when nothing is
  staged, or when \<open>Experience Readonly\<close> is set.  Hence, with the option set and the
  one-shot initialisation done (the constructor does it), the \<open>ucinewgame\<close> handler
  returns and leaves the world and the controller as they are, and the \<open>quit\<close> handler
  returns and leaves the files and the controller as they are (it prints one line).
\<close>

theorem C10_save_noop:
  "(currentExperience g = None \<or> (\<exists>st. currentExperience g = Some st \<and> \<not> has_new_exp st)
      \<or> Experience_Readonly g \<longrightarrow> save g = Some g)
   \<and> (Experience_Readonly g \<and> exp_once g \<longrightarrow>
        map_option world (uci_ucinewgame once_body g) = Some (world g)
        \<and> map_option currentExperience (uci_ucinewgame once_body g) = Some (currentExperience g)
        \<and> map_option (\<lambda>g'. files (world g')) (uci_quit g) = Some (files (world g))
        \<and> map_option currentExperience (uci_quit g) = Some (currentExperience g))"
proof -
  have s: "currentExperience g = None \<or> (\<exists>st. currentExperience g = Some st \<and> \<not> has_new_exp st)
      \<or> Experience_Readonly g \<Longrightarrow> save g = Some g"
    by (auto simp: save_def split: option.splits)
  show ?thesis
    using s by (auto simp: uci_ucinewgame_def uci_quit_def ensure_exp_initialized_def
        resume_learning_def say_def Let_def)
qed

theorem C10_save_noop_witness:
  "Experience_Readonly readonly_global \<and> exp_once readonly_global
   \<and> (\<exists>st. currentExperience readonly_global = Some st \<and> has_new_exp st)
   \<and> save readonly_global = Some readonly_global
   \<and> map_option world (uci_ucinewgame wiping_body readonly_global) = Some (world readonly_global)
   \<and> map_option (\<lambda>g'. files (world g')) (uci_quit readonly_global)
       = Some (files (world readonly_global))"
  using C10_save_noop [of readonly_global wiping_body]
  by (simp add: readonly_global_def has_new_exp_def data_add_pv_experience_def alloc_entry_def
      link_entry_def new_ExperienceData_def Let_def)

subsection \<open>Cleaning a move token\<close>

lemma cleanup_only_strip: "set s \<subseteq> strip_chars \<Longrightarrow> cleanup_move s = None"
proof (induction s rule: rev_induct)
  case Nil
  then show ?case by (simp add: cleanup_move.simps)
next
  case (snoc c s)
  then show ?case by (subst cleanup_move.simps) simp
qed

lemma cleanup_result_not_empty: "cleanup_move s = Some t \<Longrightarrow> t \<noteq> [] \<and> last t \<notin> strip_chars"
proof (induction s rule: rev_induct)
  case Nil
  then show ?case by (simp add: cleanup_move.simps)
next
  case (snoc c s)
  then show ?case
    by (subst (asm) cleanup_move.simps) (auto split: if_splits)
qed

text \<open>
  Claim C7 says that the stripping step never inspects a character of an empty string,
  also for an empty token and for a token made of stripped characters only.  The loop
  tests \<open>_move.back()\<close> without testing \<open>_move.empty()\<close> first: on the empty token, and on
  \<open>+\<close> or \<open>#\<close> after their removal, it calls \<open>back()\<close> on the empty string, before the
  check \<open>if (_move.empty())\<close> that follows the loop is reached.
\<close>

theorem C7_cleanup_reads_empty_string:
  "cleanup_move [] = None
   \<and> cleanup_move ''+'' = None
   \<and> parse_move_token [(''e2e4'', 796)] [] 0 = (Undefined_behaviour, 0)
   \<and> parse_move_token [(''e2e4'', 796)] ''#:25:12'' 0 = (Undefined_behaviour, 0)"
proof -
  have 1: "cleanup_move [] = None"
    by (rule cleanup_only_strip) simp
  have 2: "cleanup_move ''+'' = None" "cleanup_move ''#'' = None"
    by (rule cleanup_only_strip, simp add: strip_chars_def)+
  show ?thesis
    using 1 2 by (simp add: parse_move_token_def tokenize_def Let_def)
qed

subsection \<open>Bytes and streams\<close>

lemma length_le_bytes [simp]: "length (le_bytes n x) = n"
  by (induction n arbitrary: x) auto

lemma length_entry_bytes [simp]: "length (entry_bytes e) = 24"
  by (simp add: entry_bytes_def)

lemma le_val_le_bytes: "le_val (le_bytes n x) = x mod 256 ^ n"
proof (induction n arbitrary: x)
  case 0
  then show ?case by simp
next
  case (Suc n)
  have "le_val (le_bytes (Suc n) x) = x mod 256 + 256 * ((x div 256) mod 256 ^ n)"
    by (simp add: Suc of_char_of)
  also have "\<dots> = x mod 256 ^ Suc n"
    using zmod_zmult2_eq [of "256 ^ n" x 256] by simp
  finally show ?case .
qed

lemma le_word_8: "le_word (le_bytes 8 (uint (w :: 64 word))) = w"
proof -
  have "uint w mod 256 ^ 8 = uint w"
    using uint_lt2p [of w] by simp
  then show ?thesis by (simp add: le_word_def le_val_le_bytes)
qed

lemma le_word_4: "le_word (le_bytes 4 (uint (w :: 32 word))) = w"
proof -
  have "uint w mod 256 ^ 4 = uint w"
    using uint_lt2p [of w] by simp
  then show ?thesis by (simp add: le_word_def le_val_le_bytes)
qed

lemma le_word_2: "le_word (le_bytes 2 (uint (w :: 16 word))) = w"
proof -
  have "uint w mod 256 ^ 2 = uint w"
    using uint_lt2p [of w] by simp
  then show ?thesis by (simp add: le_word_def le_val_le_bytes)
qed

lemma bytes_entry_entry_bytes [simp]: "bytes_entry (entry_bytes e) = e"
  by (simp add: bytes_entry_def entry_bytes_def le_word_8 le_word_4 le_word_2)


lemma file_bytes_files_update [simp]:
  "file_bytes (w\<lparr>files := f\<rparr>) p = (case f p of None \<Rightarrow> [] | Some b \<Rightarrow> b)"
  by (simp add: file_bytes_def)

lemma file_bytes_disk_free_update [simp]: "file_bytes (w\<lparr>disk_free := d\<rparr>) p = file_bytes w p"
  by (simp add: file_bytes_def)

lemma file_bytes_say [simp]: "file_bytes (say m w) p = file_bytes w p"
  by (simp add: file_bytes_def say_def)

lemma file_bytes_None: "files w p = None \<Longrightarrow> file_bytes w p = []"
  by (simp add: file_bytes_def)

lemma has_room_less: "has_room wr (n + m) \<Longrightarrow> has_room wr n"
  by (simp add: has_room_def)

lemma write_entry_room:
  assumes "has_room wr (n + 24)"
  shows "\<exists>wr'. write_entry p (Some e) False wr = (True, wr') \<and> has_room wr' n
           \<and> pending p wr' = pending p wr @ entry_bytes e"
  using assms
  by (auto simp: write_entry_def stream_write_def has_room_def pending_def file_bytes_def Let_def)

lemma flush_room:
  assumes "has_room wr 0"
  shows "file_bytes (w_world (snd (write_entry p None True wr))) p = pending p wr"
  using assms
  by (auto simp: write_entry_def stream_write_def has_room_def pending_def file_bytes_def Let_def)


lemma open_stream_room:
  assumes "26 + n \<le> disk_free w"
  shows "has_room (open_stream p w) n"
    and "pending p (open_stream p w) =
      (if file_bytes w p = [] then ExperienceSignature V2 else file_bytes w p)"
  using assms
  by (auto simp: open_stream_def has_room_def pending_def stream_write_def Let_def
      file_bytes_None split: option.splits)

lemma say_writer_room:
  "has_room (wr\<lparr>w_world := say m (w_world wr)\<rparr>) n = has_room wr n"
  "pending p (wr\<lparr>w_world := say m (w_world wr)\<rparr>) = pending p wr"
  by (simp_all add: has_room_def pending_def, simp add: say_def)



lemma data_save_returns:
  "ign \<or> \<not> loading st \<Longrightarrow> data_save fn sa ign (w, st) = Some (save_steps fn sa (w, st))"
  by (auto simp: data_save_def wait_for_load_finished_def)

lemma data_save_waits:
  "loading st \<Longrightarrow> data_save fn sa False (w, st) = None"
  by (simp add: data_save_def wait_for_load_finished_def)


lemma batch_member:
  assumes "i < length L" "\<not> depth (h (L ! i)) <s MinDepth" "km_hash (h (L ! i)) \<notin> set seen"
    and "\<forall>j<i. \<not> depth (h (L ! j)) <s MinDepth \<longrightarrow> km_hash (h (L ! j)) \<noteq> km_hash (h (L ! i))"
  shows "L ! i \<in> set (batch_entries h L seen)"
  using assms
proof (induction L arbitrary: i seen)
  case Nil
  then show ?case by simp
next
  case (Cons b L)
  show ?case
  proof (cases i)
    case 0
    then show ?thesis using Cons.prems by simp
  next
    case (Suc i')
    have later: "\<forall>j<i'. \<not> depth (h (L ! j)) <s MinDepth \<longrightarrow> km_hash (h (L ! j)) \<noteq> km_hash (h (L ! i'))"
      using Cons.prems(4) Suc by auto
    have first: "\<not> depth (h b) <s MinDepth \<Longrightarrow> km_hash (h b) \<noteq> km_hash (h (L ! i'))"
      using Cons.prems(4) Suc by auto
    have i': "i' < length L" "\<not> depth (h (L ! i')) <s MinDepth" "km_hash (h (L ! i')) \<notin> set seen"
      using Cons.prems Suc by auto
    have "L ! i' \<in> set (batch_entries h L seen)"
      by (rule Cons.IH [OF i' later])
    moreover have "\<not> depth (h b) <s MinDepth \<Longrightarrow> L ! i' \<in> set (batch_entries h L (km_hash (h b) # seen))"
      using first i' by (intro Cons.IH [OF _ _ _ later]) auto
    ultimately show ?thesis using Suc by auto
  qed
qed

subsection \<open>The shape of the index\<close>

lemma map_of_split:
  "map_of xs k = Some c \<Longrightarrow> \<exists>ys zs. xs = ys @ (k, c) # zs \<and> k \<notin> fst ` set ys"
proof (induction xs)
  case Nil
  then show ?case by simp
next
  case (Cons x xs)
  show ?case
  proof (cases "fst x = k")
    case True
    then have "x # xs = [] @ (k, c) # xs" using Cons.prems by (cases x) auto
    then show ?thesis by (metis empty_iff image_empty list.set(1))
  next
    case False
    then have "map_of xs k = Some c" using Cons.prems by (cases x) auto
    from Cons.IH [OF this] obtain ys zs where "xs = ys @ (k, c) # zs" "k \<notin> fst ` set ys"
      by blast
    then have "x # xs = (x # ys) @ (k, c) # zs \<and> k \<notin> fst ` set (x # ys)"
      using False by auto
    then show ?thesis by blast
  qed
qed

lemma update_split:
  "k \<notin> fst ` set ys \<Longrightarrow> AList.update k v (ys @ (k, c) # zs) = ys @ (k, v) # zs"
  by (induction ys) auto

lemma insert_walk_set: "set (insert_walk h e b c) = insert e (set c)"
  by (induction c arbitrary: b) auto

lemma insert_walk_distinct:
  "distinct c \<Longrightarrow> e \<notin> set c \<Longrightarrow> distinct (insert_walk h e b c)"
  by (induction c arbitrary: b) (auto simp: insert_walk_set)

lemma insert_walk_not_Nil: "insert_walk h e b c \<noteq> []"
  by (cases c) auto


lemma find_move_None: "find_move h c m = None \<Longrightarrow> a \<in> set c \<Longrightarrow> move (h a) \<noteq> m"
  by (induction c) (auto split: if_splits)

lemma key_merge [simp]: "key (merge a b) = key a"
  by (simp add: merge_def Let_def)

lemma chain_in_index:
  "map_of (mainExp st) k = Some c \<Longrightarrow> set c \<subseteq> set (index_addrs st)"
  by (auto simp: index_addrs_def dest!: map_of_SomeD)

lemma wf_index_key:
  assumes "wf_index st" "a \<in> set (index_addrs st)"
  shows "\<exists>c. map_of (mainExp st) (key (heap st a)) = Some c \<and> a \<in> set c"
proof -
  from assms(2) obtain k c where kc: "(k, c) \<in> set (mainExp st)" "a \<in> set c"
    by (auto simp: index_addrs_def)
  then have "key (heap st a) = k"
    using assms(1) by (auto simp: wf_index_def)
  moreover have "map_of (mainExp st) k = Some c"
    using assms(1) kc(1) by (simp add: wf_index_def)
  ultimately show ?thesis using kc(2) by simp
qed

lemma link_entry_wf:
  assumes "wf_index st"
  shows "wf_index (snd (link_entry e st))"
proof (cases "map_of (mainExp st) (key (heap st e))")
  case None
  have "e \<notin> set (index_addrs st)"
    using wf_index_key [OF assms, of e] None by auto
  moreover have "key (heap st e) \<notin> fst ` set (mainExp st)"
    using None by (simp add: map_of_eq_None_iff)
  ultimately show ?thesis
    using assms None by (auto simp: link_entry_def Let_def wf_index_def index_addrs_def)
next
  case (Some c)
  show ?thesis
  proof (cases "find_move (heap st) c (move (heap st e))")
    case (Some e2)
    then show ?thesis
      using assms \<open>map_of (mainExp st) (key (heap st e)) = Some c\<close>
      by (auto simp: link_entry_def Let_def wf_index_def index_addrs_def)
  next
    case None
    have notin: "e \<notin> set (index_addrs st)"
    proof
      assume "e \<in> set (index_addrs st)"
      from wf_index_key [OF assms this] Some have "e \<in> set c" by simp
      from find_move_None [OF None this] show False by simp
    qed
    from map_of_split [OF Some] obtain ys zs where
      sp: "mainExp st = ys @ (key (heap st e), c) # zs" "key (heap st e) \<notin> fst ` set ys"
      by blast
    have upd: "AList.update (key (heap st e)) (insert_walk (heap st) e True c) (mainExp st)
        = ys @ (key (heap st e), insert_walk (heap st) e True c) # zs"
      using sp by (simp add: update_split)
    have st': "snd (link_entry e st)
        = st\<lparr>mainExp := ys @ (key (heap st e), insert_walk (heap st) e True c) # zs\<rparr>"
      using Some None upd by (simp add: link_entry_def Let_def)
    have "e \<notin> set c"
      using notin sp(1) by (auto simp: index_addrs_def)
    then show ?thesis
      using assms notin sp(1) insert_walk_distinct [of c e "heap st" True]
      unfolding st' wf_index_def index_addrs_def
      by (auto simp: insert_walk_set insert_walk_not_Nil)
  qed
qed

lemma link_all_wf: "wf_index st \<Longrightarrow> wf_index (link_all es st)"
  by (induction es arbitrary: st) (auto intro: link_entry_wf)

lemma link_staged_wf: "wf_index st \<Longrightarrow> wf_index (link_staged st)"
  by (simp add: link_staged_def link_all_wf)


lemma link_entry_staging [simp]:
  "newPvExp (snd (link_entry e st)) = newPvExp st"
  "newMultiPvExp (snd (link_entry e st)) = newMultiPvExp st"
  "next_addr (snd (link_entry e st)) = next_addr st"
  "abortLoading (snd (link_entry e st)) = abortLoading st"
  by (simp_all add: link_entry_def Let_def split: option.splits)




subsection \<open>Full save\<close>

lemma scale_counts_at:
  "distinct c \<Longrightarrow>
   scale_counts s c h a = (if a \<in> set c then (h a)\<lparr>count := max (count (h a) div s) 1\<rparr> else h a)"
  by (induction c arbitrary: h) auto

lemma chain_max_count_upper:
  "m \<le> chain_max_count h c m \<and> (\<forall>a \<in> set c. count (h a) \<le> chain_max_count h c m)"
proof (induction c arbitrary: m)
  case Nil
  then show ?case by simp
next
  case (Cons a c)
  have "max m (count (h a)) \<le> chain_max_count h c (max m (count (h a)))"
    and "\<forall>b \<in> set c. count (h b) \<le> chain_max_count h c (max m (count (h a)))"
    using Cons [of "max m (count (h a))"] by simp_all
  then show ?case by (auto simp: max.bounded_iff)
qed

lemma chain_max_count_attained:
  "chain_max_count h c m = m \<or> chain_max_count h c m \<in> (\<lambda>a. count (h a)) ` set c"
proof (induction c arbitrary: m)
  case Nil
  then show ?case by simp
next
  case (Cons a c)
  show ?case
    using Cons [of "max m (count (h a))"] by (auto simp: max_def)
qed

lemma chain_max_count_0:
  assumes "c \<noteq> []"
  shows "chain_max_count h c 0 = Max ((\<lambda>a. count (h a)) ` set c)"
proof -
  let ?S = "(\<lambda>a. count (h a)) ` set c"
  have up: "\<forall>y \<in> ?S. y \<le> chain_max_count h c 0"
    using chain_max_count_upper [of 0 h c] by auto
  have "chain_max_count h c 0 \<in> ?S"
  proof (cases "chain_max_count h c 0 = 0")
    case True
    obtain a where a: "a \<in> set c" using assms by (cases c) auto
    then have "count (h a) \<le> 0" using up True by auto
    then have "count (h a) = 0" by simp
    then show ?thesis using True a by force
  next
    case False
    then show ?thesis using chain_max_count_attained [of h c 0] by simp
  qed
  then show ?thesis
    using up by (intro Max_eqI [symmetric]) auto
qed

lemma chain_max_count_cong:
  "\<forall>a \<in> set c. count (h a) = count (h' a) \<Longrightarrow> chain_max_count h c m = chain_max_count h' c m"
  by (induction c arbitrary: m) auto

lemma write_chain_room:
  assumes "has_room wr (n + 24 * length c)"
  shows "\<exists>wr'. write_chain p h c wr = (True, wr') \<and> has_room wr' n
     \<and> pending p wr' = pending p wr
          @ concat (map (\<lambda>a. entry_bytes (h a)) (filter (\<lambda>a. MinDepth \<le>s depth (h a)) c))"
  using assms
proof (induction c arbitrary: wr)
  case Nil
  then show ?case by simp
next
  case (Cons a c)
  have r: "has_room wr (n + 24 * length c)"
    using Cons.prems by (simp add: has_room_def)
  show ?case
  proof (cases "MinDepth \<le>s depth (h a)")
    case False
    then show ?thesis using Cons.IH [OF r] by auto
  next
    case True
    have "has_room wr ((n + 24 * length c) + 24)"
      using Cons.prems by (simp add: has_room_def)
    from write_entry_room [OF this, of p "h a"]
    obtain wr1 where w: "write_entry p (Some (h a)) False wr = (True, wr1)"
      "has_room wr1 (n + 24 * length c)" "pending p wr1 = pending p wr @ entry_bytes (h a)"
      by blast
    from Cons.IH [OF w(2)] w True show ?thesis by auto
  qed
qed

lemma save_chains_room:
  assumes "distinct (concat (map snd xs))"
    and "has_room wr (n + 24 * length (concat (map snd xs)))"
  shows "\<exists>hF wr'. save_chains p xs h wr = (True, hF, wr') \<and> has_room wr' n
     \<and> pending p wr' = pending p wr
          @ concat (map (\<lambda>a. entry_bytes (hF a))
                      (filter (\<lambda>a. MinDepth \<le>s depth (h a)) (concat (map snd xs))))
     \<and> (\<forall>(k, c) \<in> set xs. \<forall>a \<in> set c.
           hF a = (h a)\<lparr>count := max (count (h a) div (1 + chain_max_count h c 0 div 128)) 1\<rparr>)
     \<and> (\<forall>a. a \<notin> set (concat (map snd xs)) \<longrightarrow> hF a = h a)"
  using assms
proof (induction xs arbitrary: h wr)
  case Nil
  then show ?case by simp
next
  case (Cons x xs)
  obtain k c where x: "x = (k, c)" by (cases x)
  define s where "s = 1 + chain_max_count h c 0 div 128"
  define h1 where "h1 = scale_counts s c h"
  let ?rest = "concat (map snd xs)"
  have dc: "distinct c" and dr: "distinct ?rest" and disj: "set c \<inter> set ?rest = {}"
    using Cons.prems(1) x by auto
  have h1_in: "\<And>a. a \<in> set c \<Longrightarrow> h1 a = (h a)\<lparr>count := max (count (h a) div s) 1\<rparr>"
    and h1_out: "\<And>a. a \<notin> set c \<Longrightarrow> h1 a = h a"
    by (simp_all add: h1_def scale_counts_at [OF dc])
  have h1_depth: "\<And>a. depth (h1 a) = depth (h a)"
    by (simp add: h1_def scale_counts_at [OF dc])
  have "has_room wr ((n + 24 * length ?rest) + 24 * length c)"
    using Cons.prems(2) x by (simp add: has_room_def)
  from write_chain_room [OF this, of p h1]
  obtain wr1 where w1: "write_chain p h1 c wr = (True, wr1)"
    "has_room wr1 (n + 24 * length ?rest)"
    "pending p wr1 = pending p wr
          @ concat (map (\<lambda>a. entry_bytes (h1 a)) (filter (\<lambda>a. MinDepth \<le>s depth (h1 a)) c))"
    by blast
  from Cons.IH [OF dr w1(2), of h1]
  obtain hF wr' where ih: "save_chains p xs h1 wr1 = (True, hF, wr')" "has_room wr' n"
    "pending p wr' = pending p wr1
          @ concat (map (\<lambda>a. entry_bytes (hF a))
                      (filter (\<lambda>a. MinDepth \<le>s depth (h1 a)) ?rest))"
    "\<forall>(k, c) \<in> set xs. \<forall>a \<in> set c.
           hF a = (h1 a)\<lparr>count := max (count (h1 a) div (1 + chain_max_count h1 c 0 div 128)) 1\<rparr>"
    "\<forall>a. a \<notin> set ?rest \<longrightarrow> hF a = h1 a"
    by blast
  have run: "save_chains p (x # xs) h wr = (True, hF, wr')"
    using w1(1) ih(1) by (simp add: x s_def h1_def Let_def)
  have hF_c: "\<And>a. a \<in> set c \<Longrightarrow> hF a = h1 a"
    using ih(5) disj by auto
  have bytes_c: "map (\<lambda>a. entry_bytes (h1 a)) (filter (\<lambda>a. MinDepth \<le>s depth (h a)) c)
      = map (\<lambda>a. entry_bytes (hF a)) (filter (\<lambda>a. MinDepth \<le>s depth (h a)) c)"
    by (rule map_cong) (auto simp: hF_c)
  have pend: "pending p wr' = pending p wr
          @ concat (map (\<lambda>a. entry_bytes (hF a))
                      (filter (\<lambda>a. MinDepth \<le>s depth (h a)) (concat (map snd (x # xs)))))"
    using ih(3) w1(3) by (simp add: x h1_depth bytes_c)
  have scaled: "\<forall>(k', c') \<in> set (x # xs). \<forall>a \<in> set c'.
           hF a = (h a)\<lparr>count := max (count (h a) div (1 + chain_max_count h c' 0 div 128)) 1\<rparr>"
  proof (intro ballI, clarify)
    fix k' c' a
    assume kc: "(k', c') \<in> set (x # xs)" and a: "a \<in> set c'"
    show "hF a = (h a)\<lparr>count := max (count (h a) div (1 + chain_max_count h c' 0 div 128)) 1\<rparr>"
    proof (cases "(k', c') \<in> set xs")
      case True
      then have sub: "set c' \<subseteq> set ?rest" by auto
      then have out: "\<forall>b \<in> set c'. h1 b = h b"
        using disj h1_out by auto
      then have "chain_max_count h1 c' 0 = chain_max_count h c' 0"
        by (intro chain_max_count_cong) simp
      moreover have "hF a = (h1 a)\<lparr>count := max (count (h1 a) div (1 + chain_max_count h1 c' 0 div 128)) 1\<rparr>"
        using ih(4) True a by auto
      ultimately show ?thesis using out a by simp
    next
      case False
      then have "c' = c" using kc x by auto
      then show ?thesis using a hF_c h1_in by (simp add: s_def)
    qed
  qed
  have frame: "\<forall>a. a \<notin> set (concat (map snd (x # xs))) \<longrightarrow> hF a = h a"
    using ih(5) h1_out by (auto simp: x)
  show ?case
    using run ih(2) pend scaled frame by blast
qed

lemma wf_index_chain_not_Nil: "wf_index st \<Longrightarrow> (k, c) \<in> set (mainExp st) \<Longrightarrow> c \<noteq> []"
  by (auto simp: wf_index_def)

lemma save_impl_full:
  assumes "wf_index st" "writable w (map_path w fn)"
    and "26 + 24 * length (index_addrs (link_staged st)) \<le> disk_free w"
  shows "\<exists>w' st'. save_impl fn True (w, st) = (True, w', st')
     \<and> mainExp st' = mainExp (link_staged st)
     \<and> (\<forall>(k, c) \<in> set (mainExp (link_staged st)). \<forall>a \<in> set c.
           heap st' a = (heap (link_staged st) a)
             \<lparr>count := max (count (heap (link_staged st) a)
                              div (1 + Max ((\<lambda>b. count (heap (link_staged st) b)) ` set c) div 128)) 1\<rparr>)
     \<and> file_bytes w' (map_path w fn) =
         (if file_bytes w (map_path w fn) = [] then ExperienceSignature V2
          else file_bytes w (map_path w fn))
         @ concat (map (\<lambda>a. entry_bytes (heap st' a))
                     (filter (\<lambda>a. MinDepth \<le>s depth (heap (link_staged st) a))
                        (index_addrs (link_staged st))))"
proof -
  let ?p = "map_path w fn"
  let ?wr1 = "open_stream ?p w"
  let ?st1 = "link_staged st"
  have wf1: "wf_index ?st1"
    using assms(1) by (rule link_staged_wf)
  have dist: "distinct (concat (map snd (mainExp ?st1)))"
    using wf1 by (simp add: wf_index_def index_addrs_def)
  have room: "has_room ?wr1 (0 + 24 * length (concat (map snd (mainExp ?st1))))"
    using open_stream_room(1) [of "24 * length (index_addrs ?st1)" w ?p] assms(3)
    by (simp add: index_addrs_def)
  have pend: "pending ?p ?wr1 =
      (if file_bytes w ?p = [] then ExperienceSignature V2 else file_bytes w ?p)"
    using open_stream_room(2) [of "24 * length (index_addrs ?st1)" w ?p] assms(3) by simp
  from save_chains_room [OF dist room, of ?p "heap ?st1"]
  obtain hF wr2 where s: "save_chains ?p (mainExp ?st1) (heap ?st1) ?wr1 = (True, hF, wr2)"
    "has_room wr2 0"
    "pending ?p wr2 = pending ?p ?wr1
          @ concat (map (\<lambda>a. entry_bytes (hF a))
                      (filter (\<lambda>a. MinDepth \<le>s depth (heap ?st1 a)) (concat (map snd (mainExp ?st1)))))"
    "\<forall>(k, c) \<in> set (mainExp ?st1). \<forall>a \<in> set c.
           hF a = (heap ?st1 a)\<lparr>count := max (count (heap ?st1 a)
                     div (1 + chain_max_count (heap ?st1) c 0 div 128)) 1\<rparr>"
    by blast
  let ?wr3 = "wr2\<lparr>w_world := say (Saved_all fn) (w_world wr2)\<rparr>"
  let ?st' = "clear_new_exp (?st1\<lparr>heap := hF\<rparr>)"
  have r3: "has_room ?wr3 0" "pending ?p ?wr3 = pending ?p wr2"
    using s(2) by (simp_all add: say_writer_room)
  have g1: "w_good ?wr1"
    using room by (simp add: has_room_def)
  have run: "save_impl fn True (w, st) = (True, w_world (snd (write_entry ?p None True ?wr3)), ?st')"
    using assms(2) g1 s(1) by (simp add: save_impl_def Let_def)
  have idx: "mainExp ?st' = mainExp ?st1" and hp: "heap ?st' = hF"
    by (simp_all add: clear_new_exp_def)
  have scaled: "\<forall>(k, c) \<in> set (mainExp ?st1). \<forall>a \<in> set c.
           heap ?st' a = (heap ?st1 a)\<lparr>count := max (count (heap ?st1 a)
              div (1 + Max ((\<lambda>b. count (heap ?st1 b)) ` set c) div 128)) 1\<rparr>"
  proof (intro ballI, clarify)
    fix k c a
    assume kc: "(k, c) \<in> set (mainExp ?st1)" and a: "a \<in> set c"
    have "chain_max_count (heap ?st1) c 0 = Max ((\<lambda>b. count (heap ?st1 b)) ` set c)"
      using wf_index_chain_not_Nil [OF wf1 kc] by (rule chain_max_count_0)
    then show "heap ?st' a = (heap ?st1 a)\<lparr>count := max (count (heap ?st1 a)
              div (1 + Max ((\<lambda>b. count (heap ?st1 b)) ` set c) div 128)) 1\<rparr>"
      using s(4) kc a hp by auto
  qed
  have fb: "file_bytes (w_world (snd (write_entry ?p None True ?wr3))) ?p =
         (if file_bytes w ?p = [] then ExperienceSignature V2 else file_bytes w ?p)
         @ concat (map (\<lambda>a. entry_bytes (heap ?st' a))
                     (filter (\<lambda>a. MinDepth \<le>s depth (heap ?st1 a)) (index_addrs ?st1)))"
    using flush_room [OF r3(1), of ?p] r3(2) s(3) pend hp by (simp add: index_addrs_def)
  show ?thesis
    using run idx scaled fb by blast
qed

text \<open>
  Claim C3.  A full save first links the staged entries; the chains it then walks are
  those of \<open>link_staged st\<close>.  On a well-formed index, with the path writable and room on
  the disk for the signature and every entry, \<open>_save\<close> succeeds, keeps the index, and for
  every chain replaces the count of each entry by \<open>max (count / scale) 1\<close> with
  \<open>scale = 1 + maxCount / 128\<close>, \<open>maxCount\<close> the maximum count of the chain; the bytes
  appended to the file (after the signature, if the file was empty) are the images of
  exactly the entries with \<open>depth \<ge> MinDepth\<close>, chain by chain, with the scaled counts.
\<close>

theorem C3_full_save:
  assumes "wf_index st" "writable w (map_path w fn)"
    and "26 + 24 * length (index_addrs (link_staged st)) \<le> disk_free w"
  shows "\<exists>w' st'. save_impl fn True (w, st) = (True, w', st')
     \<and> mainExp st' = mainExp (link_staged st)
     \<and> (\<forall>(k, c) \<in> set (mainExp (link_staged st)). \<forall>a \<in> set c.
           heap st' a = (heap (link_staged st) a)
             \<lparr>count := max (count (heap (link_staged st) a)
                              div (1 + Max ((\<lambda>b. count (heap (link_staged st) b)) ` set c) div 128)) 1\<rparr>)
     \<and> file_bytes w' (map_path w fn) =
         (if file_bytes w (map_path w fn) = [] then ExperienceSignature V2
          else file_bytes w (map_path w fn))
         @ concat (map (\<lambda>a. entry_bytes (heap st' a))
                     (filter (\<lambda>a. MinDepth \<le>s depth (heap (link_staged st) a))
                        (index_addrs (link_staged st))))"
  using assms by (rule save_impl_full)

theorem C3_full_save_witness:
  "wf_index scaling_data \<and> writable plain_world (map_path plain_world ''x.exp'')
   \<and> 26 + 24 * length (index_addrs (link_staged scaling_data)) \<le> disk_free plain_world
   \<and> (\<exists>w' st'. save_impl ''x.exp'' True (plain_world, scaling_data) = (True, w', st')
        \<and> heap st' 0 = new_entry 0x1111 1 100 10 100
        \<and> heap st' 1 = new_entry 0x1111 2 50 3 1
        \<and> file_bytes w' ''x.exp''
            = ExperienceSignature V2 @ entry_bytes (new_entry 0x1111 1 100 10 100))"
proof -
  have ls: "link_staged scaling_data = scaling_data"
    by (simp add: link_staged_def scaling_data_def new_ExperienceData_def)
  have wf: "wf_index scaling_data"
    by (simp add: wf_index_def index_addrs_def scaling_data_def new_ExperienceData_def new_entry_def)
  have wr: "writable plain_world (map_path plain_world ''x.exp'')"
    by (simp add: plain_world_def)
  have dk: "26 + 24 * length (index_addrs (link_staged scaling_data)) \<le> disk_free plain_world"
    unfolding ls by (simp add: index_addrs_def scaling_data_def plain_world_def new_ExperienceData_def)
  have mx: "Max {300, 5 :: 16 word} = 300"
    by simp
  from C3_full_save [OF wf wr dk]
  obtain w' st' where r: "save_impl ''x.exp'' True (plain_world, scaling_data) = (True, w', st')"
    "\<forall>(k, c) \<in> set (mainExp (link_staged scaling_data)). \<forall>a \<in> set c.
           heap st' a = (heap (link_staged scaling_data) a)
             \<lparr>count := max (count (heap (link_staged scaling_data) a)
                  div (1 + Max ((\<lambda>b. count (heap (link_staged scaling_data) b)) ` set c) div 128)) 1\<rparr>"
    "file_bytes w' (map_path plain_world ''x.exp'') =
         (if file_bytes plain_world (map_path plain_world ''x.exp'') = [] then ExperienceSignature V2
          else file_bytes plain_world (map_path plain_world ''x.exp''))
         @ concat (map (\<lambda>a. entry_bytes (heap st' a))
                     (filter (\<lambda>a. MinDepth \<le>s depth (heap (link_staged scaling_data) a))
                        (index_addrs (link_staged scaling_data))))"
    by blast
  have h: "heap st' 0 = new_entry 0x1111 1 100 10 100" "heap st' 1 = new_entry 0x1111 2 50 3 1"
    using r(2) unfolding ls
    by (simp_all add: scaling_data_def new_ExperienceData_def new_entry_def mx)
  have f: "file_bytes w' ''x.exp''
            = ExperienceSignature V2 @ entry_bytes (new_entry 0x1111 1 100 10 100)"
    using r(3) h unfolding ls
    by (simp add: scaling_data_def new_ExperienceData_def index_addrs_def plain_world_def
        file_bytes_def new_entry_def MinDepth_def word_sle_eq)
  show ?thesis
    using wf wr dk r(1) h f by blast
qed

subsection \<open>Incremental save\<close>

text \<open>
  Claim C5 says that a staged entry with \<open>depth \<ge> 4\<close> is skipped exactly when an earlier
  entry of the batch has the same (key, move).  The set \<open>seen\<close> holds the 64-bit value
  \<open>key XOR move * 0x9E3779B185EBCA87\<close>, not the pair.  The two staged entries below differ
  in key and in move, both have depth 10, their \<open>km_hash\<close> is the same, and the save writes
  the first one only.
\<close>

theorem C5_hash_collision_drops_entry:
  "newPvExp collision_data = [0, 1]
   \<and> heap collision_data 0 = new_entry 0x1111111111111111 1 20 10 1
   \<and> heap collision_data 1 = new_entry 12918746795603742360 2 30 10 1
   \<and> km_hash (heap collision_data 0) = km_hash (heap collision_data 1)
   \<and> fst (save_impl ''x.exp'' False (plain_world, collision_data))
   \<and> files (fst (snd (save_impl ''x.exp'' False (plain_world, collision_data)))) ''x.exp''
       = Some (ExperienceSignature V2 @ entry_bytes (new_entry 0x1111111111111111 1 20 10 1))"
proof -
  have st: "collision_data =
      (new_ExperienceData
         (zero_memory(0 := new_entry 0x1111111111111111 1 20 10 1,
                      1 := new_entry 12918746795603742360 2 30 10 1)) 2)
        \<lparr>filename := ''x.exp'', newPvExp := [0, 1],
          mainExp := [(0x1111111111111111, [0]), (12918746795603742360, [1])]\<rparr>"
    by (simp add: collision_data_def data_add_pv_experience_def alloc_entry_def link_entry_def
        new_ExperienceData_def new_entry_def Let_def fun_upd_twist)
  show ?thesis
    unfolding st
    by (simp add: save_impl_def open_stream_def stream_write_def
        write_entry_def new_ExperienceData_def plain_world_def Let_def
        new_entry_def MinDepth_def km_hash_def WriteBufferSize_def say_def word_sless_alt
        file_bytes_def)
qed













subsection \<open>Loading\<close>

lemma upt_2: "[n ..< n + 2] = [n, Suc n]"
  by (simp add: upt_rec)

lemma load_cannot_open:
  "files w (map_path w fn) = None \<Longrightarrow> load_impl fn (w, st) = Some (False, say (Could_not_open fn) w, st)"
  by (simp add: load_impl_def)

text \<open>
  Claim C6 says that a load that fails on IO leaves the index as it was.  That holds when
  the file cannot be opened (\<open>load_cannot_open\<close>).  When a read fails in the middle of the
  file, the entries read before it have been linked already: here the index is empty
  before the load and holds the first entry of the file after it, \<open>_load\<close> returns false,
  and the pool of both entries has been released (\<open>freed\<close>) and is not among \<open>expData\<close>,
  so the chain points into freed memory.
\<close>

theorem C6_failed_read_leaves_entries_linked:
  "mainExp (new_ExperienceData zero_memory 0) = []
   \<and> load_impl ''v2.exp'' (faulty_world, new_ExperienceData zero_memory 0)
       = Some (False, say Failed_to_read_entry faulty_world,
               \<lparr>filename = [], heap = zero_memory(0 := new_entry 9 3 10 12 1), next_addr = 2,
                expData = [], newPvExp = [], newMultiPvExp = [], oldExpData = [],
                mainExp = [(9, [0])], freed = [0, 1],
                loading = False, abortLoading = False, loadingResult = False\<rparr>)"
  by (simp add: load_impl_def faulty_world_def plain_world_def check_signature_def
      check_signature_set_count_def stream_read_def Let_def CurrentVersion_def
      new_ExperienceData_def link_entry_def say_def new_entry_def upt_2 [of 0, simplified])

lemma same_disk_refl [simp]: "same_disk w w"
  by (simp add: same_disk_def)

lemma same_disk_say [simp]: "same_disk w (say m w') = same_disk w w'"
  by (simp add: same_disk_def say_def)

lemma check_signature_same_disk: "same_disk w (snd (check_signature r content w))"
  by (simp add: check_signature_def check_signature_set_count_def Let_def split: option.splits)

lemma select_reader_same_disk:
  "same_disk w0 w \<Longrightarrow> same_disk w0 (snd (select_reader rs content w))"
proof (induction rs arbitrary: w)
  case Nil
  then show ?case by simp
next
  case (Cons r rs)
  have "same_disk w0 (snd (check_signature r content w))"
    using check_signature_same_disk [of w r content] Cons.prems by (simp add: same_disk_def)
  then show ?case
    using Cons.IH by (auto split: prod.splits option.splits)
qed

lemma link_all_abort [simp]: "abortLoading (link_all es st) = abortLoading st"
  by (induction es arbitrary: st) auto

lemma save_impl_abort: "abortLoading (snd (snd (save_impl fn sa (w, st)))) = abortLoading st"
proof -
  let ?p = "map_path w fn"
  let ?wr1 = "open_stream ?p w"
  obtain b h2 wr2 where c: "save_chains ?p (mainExp (link_staged st)) (heap (link_staged st)) ?wr1
      = (b, h2, wr2)"
    by (cases "save_chains ?p (mainExp (link_staged st)) (heap (link_staged st)) ?wr1") auto
  obtain b' seen wr2' where n: "save_new ?p (heap st) (newPvExp st @ newMultiPvExp st) [] ?wr1
      = (b', seen, wr2')"
    by (cases "save_new ?p (heap st) (newPvExp st @ newMultiPvExp st) [] ?wr1") auto
  show ?thesis
    using c n
    by (cases b; cases b'; cases sa)
       (simp_all add: save_impl_def Let_def clear_new_exp_def link_staged_def)
qed

lemma save_steps_abort: "abortLoading (snd (save_steps fn sa (w, st))) = abortLoading st"
proof (cases "\<not> has_new_exp st \<and> (\<not> sa \<or> mainExp st = [])")
  case True
  then show ?thesis by (simp add: save_steps_def)
next
  case False
  obtain bk w2 where b: "(if sa \<and> file_exists w (map_path w fn) then make_backup (map_path w fn) w
              else ([], w)) = (bk, w2)"
    by (cases "(if sa \<and> file_exists w (map_path w fn) then make_backup (map_path w fn) w
              else ([], w))") auto
  obtain ok w3 st3 where r: "save_impl fn sa (w2, st) = (ok, w3, st3)"
    by (cases "save_impl fn sa (w2, st)") auto
  have "snd (save_steps fn sa (w, st)) = st3"
    using False b r by (cases ok) (auto simp: save_steps_def Let_def)
  then show ?thesis
    using save_impl_abort [of fn sa w2 st] r by simp
qed


lemma reader_read_heap:
  "reader_read r w content off a h = Some h1 \<Longrightarrow> b \<noteq> a \<Longrightarrow> h1 b = h b"
  by (cases r) (auto split: option.splits)

lemma wf_index_heap_outside:
  assumes "wf_index st" "\<forall>b \<in> set (index_addrs st). h b = heap st b"
  shows "wf_index (st\<lparr>heap := h\<rparr>)"
  using assms unfolding wf_index_def index_addrs_def by auto

lemma update_addrs:
  "set (concat (map snd (AList.update k v xs))) \<subseteq> set v \<union> set (concat (map snd xs))"
  by (induction xs) auto

lemma link_entry_index_addrs:
  "set (index_addrs (snd (link_entry e st))) \<subseteq> insert e (set (index_addrs st))"
proof (cases "map_of (mainExp st) (key (heap st e))")
  case None
  then show ?thesis by (auto simp: link_entry_def Let_def index_addrs_def)
next
  case (Some c)
  show ?thesis
  proof (cases "find_move (heap st) c (move (heap st e))")
    case (Some e2)
    then show ?thesis
      using \<open>map_of (mainExp st) (key (heap st e)) = Some c\<close>
      by (auto simp: link_entry_def Let_def index_addrs_def)
  next
    case None
    have "set c \<subseteq> set (index_addrs st)"
      using Some by (rule chain_in_index)
    then show ?thesis
      using None Some update_addrs [of "key (heap st e)" "insert_walk (heap st) e True c" "mainExp st"]
      by (auto simp: link_entry_def Let_def index_addrs_def insert_walk_set)
  qed
qed

lemma read_entries_wf:
  assumes "wf_index st" "distinct as" "set as \<inter> set (index_addrs st) = {}"
  shows "wf_index (snd (read_entries r w content off as st))"
  using assms
proof (induction as arbitrary: st off)
  case Nil
  then show ?case by simp
next
  case (Cons a as)
  show ?case
  proof (cases "abortLoading st")
    case True
    then show ?thesis using Cons.prems by simp
  next
    case False
    show ?thesis
    proof (cases "reader_read r w content off a (heap st)")
      case None
      then show ?thesis using False Cons.prems by simp
    next
      case (Some h1)
      let ?st1 = "snd (link_entry a (st\<lparr>heap := h1\<rparr>))"
      have out: "\<forall>b \<in> set (index_addrs st). h1 b = heap st b"
        using reader_read_heap [OF Some] Cons.prems(3) by (metis Int_iff empty_iff list.set_intros(1))
      have wf1: "wf_index ?st1"
        using wf_index_heap_outside [OF Cons.prems(1) out] by (rule link_entry_wf)
      have "set (index_addrs ?st1) \<subseteq> insert a (set (index_addrs st))"
        using link_entry_index_addrs [of a "st\<lparr>heap := h1\<rparr>"] by (simp add: index_addrs_def)
      then have disj: "set as \<inter> set (index_addrs ?st1) = {}"
        using Cons.prems(2,3) by auto
      have "wf_index (snd (read_entries r w content (off + 24) as ?st1))"
        using wf1 Cons.prems(2) disj by (intro Cons.IH) auto
      then show ?thesis using False Some by simp
    qed
  qed
qed

lemma read_entries_abort: "abortLoading (snd (read_entries r w content off as st)) = abortLoading st"
  by (induction as arbitrary: st off) (auto split: option.splits)

lemma v1_read_fields:
  assumes "reader_read V1 w content off a h = Some h'"
  shows "count (h' a) = 1 \<and> padding (h' a) = padding (h a)
     \<and> key (h' a) = le_word (take 8 (take 24 (drop off content)))
     \<and> move (h' a) = le_word (take 4 (drop 8 (take 24 (drop off content))))
     \<and> value (h' a) = le_word (take 4 (drop 12 (take 24 (drop off content))))
     \<and> depth (h' a) = le_word (take 4 (drop 16 (take 24 (drop off content))))
     \<and> (\<forall>b. b \<noteq> a \<longrightarrow> h' b = h b)"
  using assms
  by (auto simp: stream_read_def bytes_entry_def split: option.splits if_splits)

lemma bak_differs: "p \<noteq> p @ ''.bak''"
  by simp

lemma make_backup_ok:
  assumes "files w p = Some old" "writable w p" "writable w (p @ ''.bak'')"
  shows "\<exists>w2. make_backup p w = (p @ ''.bak'', w2) \<and> files w2 p = None
     \<and> files w2 (p @ ''.bak'') = Some old \<and> same_disk (w\<lparr>files := files w2\<rparr>) w2"
  using assms
  by (auto simp: make_backup_def fs_remove_def fs_rename_def file_exists_def Let_def same_disk_def)

lemma save_steps_full:
  assumes wf: "wf_index st" and ne: "has_new_exp st \<or> mainExp st \<noteq> []"
    and ex: "files w (map_path w fn) = Some old"
    and wr: "writable w (map_path w fn)" "writable w (map_path w fn @ ''.bak'')"
    and dk: "26 + 24 * length (index_addrs (link_staged st)) \<le> disk_free w"
  shows "\<exists>w' st'. save_steps fn True (w, st) = (w', st')
     \<and> mainExp st' = mainExp (link_staged st)
     \<and> (\<forall>(k, c) \<in> set (mainExp (link_staged st)). \<forall>a \<in> set c.
           heap st' a = (heap (link_staged st) a)
             \<lparr>count := max (count (heap (link_staged st) a)
                              div (1 + Max ((\<lambda>b. count (heap (link_staged st) b)) ` set c) div 128)) 1\<rparr>)
     \<and> file_bytes w' (map_path w fn) =
         ExperienceSignature V2
         @ concat (map (\<lambda>a. entry_bytes (heap st' a))
                     (filter (\<lambda>a. MinDepth \<le>s depth (heap (link_staged st) a))
                        (index_addrs (link_staged st))))"
proof -
  let ?p = "map_path w fn"
  from make_backup_ok [OF ex wr]
  obtain w2 where b: "make_backup ?p w = (?p @ ''.bak'', w2)" "files w2 ?p = None"
    "same_disk (w\<lparr>files := files w2\<rparr>) w2"
    by blast
  have mp: "map_path w2 = map_path w" and wt: "writable w2 = writable w"
    and df: "disk_free w2 = disk_free w"
    using b(3) by (simp_all add: same_disk_def)
  have wr2: "writable w2 (map_path w2 fn)"
    using wr(1) by (simp add: mp wt)
  have dk2: "26 + 24 * length (index_addrs (link_staged st)) \<le> disk_free w2"
    using dk by (simp add: df)
  from save_impl_full [OF wf wr2 dk2]
  obtain w' st' where s: "save_impl fn True (w2, st) = (True, w', st')"
    "mainExp st' = mainExp (link_staged st)"
    "\<forall>(k, c) \<in> set (mainExp (link_staged st)). \<forall>a \<in> set c.
           heap st' a = (heap (link_staged st) a)
             \<lparr>count := max (count (heap (link_staged st) a)
                              div (1 + Max ((\<lambda>b. count (heap (link_staged st) b)) ` set c) div 128)) 1\<rparr>"
    "file_bytes w' (map_path w2 fn) =
         (if file_bytes w2 (map_path w2 fn) = [] then ExperienceSignature V2
          else file_bytes w2 (map_path w2 fn))
         @ concat (map (\<lambda>a. entry_bytes (heap st' a))
                     (filter (\<lambda>a. MinDepth \<le>s depth (heap (link_staged st) a))
                        (index_addrs (link_staged st))))"
    by blast
  have e: "file_bytes w2 ?p = []"
    using b(2) by (rule file_bytes_None)
  have "save_steps fn True (w, st) = (w', st')"
    using ne ex b(1) s(1) by (auto simp: save_steps_def Let_def file_exists_def)
  moreover have "file_bytes w' (map_path w fn) =
         ExperienceSignature V2
         @ concat (map (\<lambda>a. entry_bytes (heap st' a))
                     (filter (\<lambda>a. MinDepth \<le>s depth (heap (link_staged st) a))
                        (index_addrs (link_staged st))))"
    using s(4) e by (simp add: mp)
  ultimately show ?thesis
    using s(2,3) by blast
qed

lemma wf_index_fields [simp]:
  "wf_index (st\<lparr>next_addr := n\<rparr>) = wf_index st"
  "wf_index (st\<lparr>expData := x\<rparr>) = wf_index st"
  by (simp_all add: wf_index_def index_addrs_def)

lemma index_addrs_fields [simp]:
  "index_addrs (st\<lparr>next_addr := n\<rparr>) = index_addrs st"
  "index_addrs (st\<lparr>expData := x\<rparr>) = index_addrs st"
  by (simp_all add: index_addrs_def)

lemma say_fields [simp]:
  "files (say m w) = files w" "writable (say m w) = writable w"
  "disk_free (say m w) = disk_free w" "map_path (say m w) = map_path w"
  "read_ok (say m w) = read_ok w" "alloc_ok (say m w) = alloc_ok w"
  by (simp_all add: say_def)

lemma signature_length:
  "length (ExperienceSignature V1) = 5" "length (ExperienceSignature V2) = 26"
  by simp_all

lemma load_impl_upgrade_path:
  assumes "files w (map_path w fn) = Some content" "content \<noteq> []"
    and "select_reader [V2, V1] content w = (Some (r, cnt), w1)"
    and "get_version r \<noteq> CurrentVersion"
    and "alloc_ok w1 (unat cnt * 32)"
    and "read_entries r (say (Importing_experience_version (get_version r) fn) w1) content
           (length (ExperienceSignature r)) [next_addr st ..< next_addr st + unat cnt]
           (st\<lparr>next_addr := next_addr st + unat cnt\<rparr>) = (True, st2)"
    and "\<not> abortLoading st2"
    and "data_save fn True True
           (say (Upgrading_experience_file fn (get_version r) CurrentVersion)
              (say (Importing_experience_version (get_version r) fn) w1),
            st2\<lparr>expData := expData st2 @ [[next_addr st ..< next_addr st + unat cnt]]\<rparr>)
         = Some (w4, st4)"
    and "\<not> abortLoading st4"
  shows "load_impl fn (w, st) = Some (True, say (Load_statistics fn) w4, st4)"
proof -
  have al: "alloc_ok (say (Importing_experience_version (get_version r) fn) w1) (unat cnt * 32)"
    using assms(5) by (simp add: say_def)
  show ?thesis
    unfolding load_impl_def
    by (simp add: Let_def assms al del: select_reader.simps)
qed

lemma v1_content_length: "length v1_content = 53"
  by (simp add: v1_content_def v1_record_def)

lemma v1_select: "select_reader [V2, V1] v1_content v1_world = (Some (V1, 2), v1_world)"
  by (simp add: check_signature_def check_signature_set_count_def v1_content_length Let_def
      stream_read_def, simp add: v1_content_def v1_world_def plain_world_def)

lemma v1_read:
  "read_entries V1 (say (Importing_experience_version 1 ''v1.exp'') v1_world) v1_content 5
     [next_addr loader_start ..< next_addr loader_start + unat (2 :: 64 word)]
     (loader_start\<lparr>next_addr := next_addr loader_start + unat (2 :: 64 word)\<rparr>)
   = (True, v1_parsed)"
proof -
  have p: "[next_addr loader_start ..< next_addr loader_start + unat (2 :: 64 word)] = [0, 1]"
    by (simp add: loader_start_def new_ExperienceData_def upt_rec)
  show ?thesis
    unfolding p
    by (simp add: stream_read_def v1_content_length v1_world_def plain_world_def)
       (simp add: v1_content_def v1_record_def loader_start_def new_ExperienceData_def
          link_entry_def Let_def v1_parsed_def zero_memory_def new_entry_def fun_upd_twist
          compare_def scaledValue_def int_div_def int_max_def word_sless_alt
          signed_divide_int_def)
qed

lemma link_entry_loading [simp]: "loading (snd (link_entry e st)) = loading st"
  by (simp add: link_entry_def Let_def split: option.splits)

lemma read_entries_loading: "loading (snd (read_entries r w content off as st)) = loading st"
  by (induction as arbitrary: st off) (auto split: option.splits)

lemma save_steps_nothing:
  "\<not> has_new_exp st \<Longrightarrow> mainExp st = [] \<Longrightarrow> save_steps fn sa (w, st) = (w, st)"
  by (simp add: save_steps_def)

lemma one_chain_index:
  "length ix = Suc 0 \<Longrightarrow> set ix = {x} \<Longrightarrow> ix = [x]"
  by (cases ix) auto

text \<open>
  Claim C8 says that after a whole V1 file has been parsed the controller rewrites the
  file in V2 form.  A V1 file that holds only the signature is parsed whole (it has no
  entry); loaded into an empty controller it makes \<open>_load\<close> print the upgrade message and
  call \<open>save(fn, true, true)\<close>, which returns at once because nothing is staged and the
  index is empty: \<open>_load\<close> returns true, the world differs from the one before in the
  three lines printed, and the file still holds \<open>SugaR\<close> and nothing else.
\<close>

theorem C8_empty_v1_file_not_rewritten:
  "files empty_v1_world ''v1.exp'' = Some ''SugaR''
   \<and> load_impl ''v1.exp'' (empty_v1_world, new_ExperienceData zero_memory 0)
       = Some (True,
               empty_v1_world
                 \<lparr>console := [Importing_experience_version 1 ''v1.exp'',
                              Upgrading_experience_file ''v1.exp'' 1 2,
                              Load_statistics ''v1.exp'']\<rparr>,
               (new_ExperienceData zero_memory 0)\<lparr>expData := [[]]\<rparr>)"
  by (simp add: load_impl_def empty_v1_world_def plain_world_def check_signature_def
        check_signature_set_count_def stream_read_def Let_def CurrentVersion_def
        new_ExperienceData_def data_save_def save_steps_def has_new_exp_def say_def)

text \<open>
  Claim C8, amended.  Every read through the V1 codec sets \<open>count = 1\<close> and takes key,
  move, value and depth from the 24 bytes read, leaving the padding of the target.  When
  a file is recognised as V1, the pool is granted, every entry is read and loading is not
  aborted, \<open>_load\<close> prints the upgrade message, calls \<open>save(fn, true, true)\<close> on the state
  with all entries linked, and returns true once that call has returned; the same call
  without \<open>ignoreLoadingCheck\<close> would not return while \<open>_loading\<close> is raised, as it is in
  the loader thread.  If nothing is staged and the index is empty, that \<open>save\<close> changes
  neither the world nor the controller: the file is as it was.  If the index or the
  staging is not empty, then (with a well-formed index whose addresses lie below the
  allocation mark, the path and its backup name writable, and room on the disk for the
  signature and every entry of the index) the index is the one with the staged entries
  linked and the counts scaled as a full save does, and the file holds the V2 signature
  followed by the images of the index entries with \<open>depth \<ge> MinDepth\<close>, chain after chain
  in some order of the keys.
\<close>

theorem C8_v1_upgrade:
  assumes op: "files w (map_path w fn) = Some content" "content \<noteq> []"
    and rd: "select_reader [V2, V1] content w = (Some (V1, cnt), w1)"
    and al: "alloc_ok w1 (unat cnt * 32)"
    and ab: "\<not> abortLoading st"
    and pr: "read_entries V1 (say (Importing_experience_version 1 fn) w1) content 5
               [next_addr st ..< next_addr st + unat cnt]
               (st\<lparr>next_addr := next_addr st + unat cnt\<rparr>) = (True, st2)"
  shows "(\<forall>w' c off a h h'. reader_read V1 w' c off a h = Some h' \<longrightarrow>
            count (h' a) = 1 \<and> padding (h' a) = padding (h a)
            \<and> key (h' a) = le_word (take 8 (take 24 (drop off c)))
            \<and> move (h' a) = le_word (take 4 (drop 8 (take 24 (drop off c))))
            \<and> value (h' a) = le_word (take 4 (drop 12 (take 24 (drop off c))))
            \<and> depth (h' a) = le_word (take 4 (drop 16 (take 24 (drop off c)))))
    \<and> (\<exists>w3 st3 w4 st4.
          w3 = say (Upgrading_experience_file fn 1 2) (say (Importing_experience_version 1 fn) w1)
        \<and> st3 = st2\<lparr>expData := expData st2 @ [[next_addr st ..< next_addr st + unat cnt]]\<rparr>
        \<and> data_save fn True True (w3, st3) = Some (w4, st4)
        \<and> load_impl fn (w, st) = Some (True, say (Load_statistics fn) w4, st4)
        \<and> (loading st \<longrightarrow> data_save fn True False (w3, st3) = None)
        \<and> (\<not> has_new_exp st3 \<and> mainExp st3 = [] \<longrightarrow>
              w4 = w3 \<and> st4 = st3 \<and> files w4 = files w)
        \<and> (wf_index st \<and> (\<forall>a \<in> set (index_addrs st). a < next_addr st)
             \<and> (has_new_exp st3 \<or> mainExp st3 \<noteq> [])
             \<and> writable w (map_path w fn) \<and> writable w (map_path w fn @ ''.bak'')
             \<and> 26 + 24 * length (index_addrs (link_staged st3)) \<le> disk_free w
            \<longrightarrow> mainExp st4 = mainExp (link_staged st3)
              \<and> (\<forall>(k, c) \<in> set (mainExp st4). \<forall>a \<in> set c.
                    heap st4 a = (heap (link_staged st3) a)
                      \<lparr>count := max (count (heap (link_staged st3) a)
                          div (1 + Max ((\<lambda>b. count (heap (link_staged st3) b)) ` set c) div 128)) 1\<rparr>)
              \<and> (\<exists>ix. set ix = set (mainExp st4) \<and> distinct (map fst ix)
                    \<and> length ix = length (mainExp st4)
                    \<and> file_bytes w4 (map_path w fn) =
                        ExperienceSignature V2
                        @ concat (map (\<lambda>a. entry_bytes (heap st4 a))
                                    (filter (\<lambda>a. MinDepth \<le>s depth (heap st4 a))
                                       (concat (map snd ix)))))))"
proof -
  let ?pool = "[next_addr st ..< next_addr st + unat cnt]"
  let ?w2 = "say (Importing_experience_version 1 fn) w1"
  let ?w3 = "say (Upgrading_experience_file fn 1 2) ?w2"
  let ?st1 = "st\<lparr>next_addr := next_addr st + unat cnt\<rparr>"
  let ?st3 = "st2\<lparr>expData := expData st2 @ [?pool]\<rparr>"
  have fields: "\<forall>w' c off a h h'. reader_read V1 w' c off a h = Some h' \<longrightarrow>
            count (h' a) = 1 \<and> padding (h' a) = padding (h a)
            \<and> key (h' a) = le_word (take 8 (take 24 (drop off c)))
            \<and> move (h' a) = le_word (take 4 (drop 8 (take 24 (drop off c))))
            \<and> value (h' a) = le_word (take 4 (drop 12 (take 24 (drop off c))))
            \<and> depth (h' a) = le_word (take 4 (drop 16 (take 24 (drop off c))))"
    using v1_read_fields by blast
  have sd: "same_disk w w1"
    using select_reader_same_disk [of w w "[V2, V1]" content] rd by simp
  have eq: "map_path w1 = map_path w" "files w1 = files w" "writable w1 = writable w"
    "disk_free w1 = disk_free w"
    using sd by (simp_all add: same_disk_def)
  obtain w4 st4 where ss: "save_steps fn True (?w3, ?st3) = (w4, st4)"
    by (cases "save_steps fn True (?w3, ?st3)") auto
  have ds: "data_save fn True True (?w3, ?st3) = Some (w4, st4)"
    using data_save_returns [of True ?st3 fn True ?w3] ss by simp
  have ab2: "\<not> abortLoading st2"
    using read_entries_abort [of V1 ?w2 content 5 ?pool ?st1] pr ab by simp
  have ab4: "\<not> abortLoading st4"
    using save_steps_abort [of fn True ?w3 ?st3] ss ab2 by simp
  have gv: "get_version V1 \<noteq> CurrentVersion"
    by (simp add: CurrentVersion_def)
  have pr': "read_entries V1 (say (Importing_experience_version (get_version V1) fn) w1) content
           (length (ExperienceSignature V1)) ?pool ?st1 = (True, st2)"
    unfolding signature_length get_version.simps by (rule pr)
  have ds': "data_save fn True True
           (say (Upgrading_experience_file fn (get_version V1) CurrentVersion)
              (say (Importing_experience_version (get_version V1) fn) w1), ?st3) = Some (w4, st4)"
    unfolding CurrentVersion_def get_version.simps by (rule ds)
  have run: "load_impl fn (w, st) = Some (True, say (Load_statistics fn) w4, st4)"
    by (rule load_impl_upgrade_path [OF op rd gv al pr' ab2 ds' ab4])
  have waits: "data_save fn True False (?w3, ?st3) = None" if "loading st"
  proof -
    have "loading st2"
      using read_entries_loading [of V1 ?w2 content 5 ?pool ?st1] pr that by simp
    then show ?thesis
      by (intro data_save_waits) simp
  qed
  have untouched: "\<not> has_new_exp ?st3 \<and> mainExp ?st3 = [] \<longrightarrow>
      w4 = ?w3 \<and> st4 = ?st3 \<and> files w4 = files w" (is "_ \<longrightarrow> ?C")
  proof (rule impI, elim conjE)
    assume that: "\<not> has_new_exp ?st3" "mainExp ?st3 = []"
    have "(w4, st4) = (?w3, ?st3)"
      using save_steps_nothing [OF that, of fn True ?w3] ss by simp
    then have "w4 = ?w3" "st4 = ?st3"
      by simp_all
    moreover have "files ?w3 = files w"
      by (simp add: eq)
    ultimately show ?C by simp
  qed
  have rewrite: "wf_index st \<and> (\<forall>a \<in> set (index_addrs st). a < next_addr st)
             \<and> (has_new_exp ?st3 \<or> mainExp ?st3 \<noteq> [])
             \<and> writable w (map_path w fn) \<and> writable w (map_path w fn @ ''.bak'')
             \<and> 26 + 24 * length (index_addrs (link_staged ?st3)) \<le> disk_free w
            \<longrightarrow> mainExp st4 = mainExp (link_staged ?st3)
              \<and> (\<forall>(k, c) \<in> set (mainExp st4). \<forall>a \<in> set c.
                    heap st4 a = (heap (link_staged ?st3) a)
                      \<lparr>count := max (count (heap (link_staged ?st3) a)
                          div (1 + Max ((\<lambda>b. count (heap (link_staged ?st3) b)) ` set c) div 128)) 1\<rparr>)
              \<and> (\<exists>ix. set ix = set (mainExp st4) \<and> distinct (map fst ix)
                    \<and> length ix = length (mainExp st4)
                    \<and> file_bytes w4 (map_path w fn) =
                        ExperienceSignature V2
                        @ concat (map (\<lambda>a. entry_bytes (heap st4 a))
                                    (filter (\<lambda>a. MinDepth \<le>s depth (heap st4 a))
                                       (concat (map snd ix)))))"
    (is "_ \<longrightarrow> ?R")
  proof (rule impI, elim conjE)
    assume h: "wf_index st" "\<forall>a \<in> set (index_addrs st). a < next_addr st"
      "has_new_exp ?st3 \<or> mainExp ?st3 \<noteq> []"
      "writable w (map_path w fn)" "writable w (map_path w fn @ ''.bak'')"
      "26 + 24 * length (index_addrs (link_staged ?st3)) \<le> disk_free w"
    let ?ls = "link_staged ?st3"
    have disj: "set ?pool \<inter> set (index_addrs ?st1) = {}"
      using h(2) by auto
    have "wf_index (snd (read_entries V1 ?w2 content 5 ?pool ?st1))"
      using h(1) disj by (intro read_entries_wf) simp_all
    then have wf3: "wf_index ?st3"
      using pr by simp
    have wfl: "wf_index ?ls"
      using wf3 by (rule link_staged_wf)
    have "\<exists>w' st'. save_steps fn True (?w3, ?st3) = (w', st')
       \<and> mainExp st' = mainExp ?ls
       \<and> (\<forall>(k, c) \<in> set (mainExp ?ls). \<forall>a \<in> set c.
             heap st' a = (heap ?ls a)
               \<lparr>count := max (count (heap ?ls a)
                   div (1 + Max ((\<lambda>b. count (heap ?ls b)) ` set c) div 128)) 1\<rparr>)
       \<and> file_bytes w' (map_path ?w3 fn) =
         ExperienceSignature V2
         @ concat (map (\<lambda>a. entry_bytes (heap st' a))
                     (filter (\<lambda>a. MinDepth \<le>s depth (heap ?ls a)) (index_addrs ?ls)))"
      using wf3 h(3) op(1) h(4,5,6) by (intro save_steps_full) (simp_all add: eq)
    then have r: "mainExp st4 = mainExp ?ls"
      "\<forall>(k, c) \<in> set (mainExp ?ls). \<forall>a \<in> set c.
             heap st4 a = (heap ?ls a)
               \<lparr>count := max (count (heap ?ls a)
                   div (1 + Max ((\<lambda>b. count (heap ?ls b)) ` set c) div 128)) 1\<rparr>"
      "file_bytes w4 (map_path w fn) =
         ExperienceSignature V2
         @ concat (map (\<lambda>a. entry_bytes (heap st4 a))
                     (filter (\<lambda>a. MinDepth \<le>s depth (heap ?ls a)) (index_addrs ?ls)))"
      using ss by (simp_all add: eq)
    have dp: "depth (heap st4 a) = depth (heap ?ls a)" if "a \<in> set (index_addrs ?ls)" for a
    proof -
      from that obtain k c where "(k, c) \<in> set (mainExp ?ls)" "a \<in> set c"
        by (auto simp: index_addrs_def)
      then have "heap st4 a = (heap ?ls a)
               \<lparr>count := max (count (heap ?ls a)
                   div (1 + Max ((\<lambda>b. count (heap ?ls b)) ` set c) div 128)) 1\<rparr>"
        using r(2) by blast
      then show ?thesis by simp
    qed
    have fl: "filter (\<lambda>a. MinDepth \<le>s depth (heap st4 a)) (index_addrs ?ls)
        = filter (\<lambda>a. MinDepth \<le>s depth (heap ?ls a)) (index_addrs ?ls)"
      by (intro filter_cong) (simp_all add: dp)
    have fl': "filter (\<lambda>a. MinDepth \<le>s depth (heap st4 a)) (concat (map snd (mainExp st4)))
        = filter (\<lambda>a. MinDepth \<le>s depth (heap ?ls a)) (index_addrs ?ls)"
      using fl by (simp add: r(1) index_addrs_def)
    have f: "file_bytes w4 (map_path w fn) =
         ExperienceSignature V2
         @ concat (map (\<lambda>a. entry_bytes (heap st4 a))
                     (filter (\<lambda>a. MinDepth \<le>s depth (heap st4 a))
                        (concat (map snd (mainExp st4)))))"
      using r(3) by (simp only: fl')
    have d: "distinct (map fst (mainExp st4))"
      using wfl unfolding r(1) by (simp add: wf_index_def)
    have "\<exists>ix. set ix = set (mainExp st4) \<and> distinct (map fst ix)
                    \<and> length ix = length (mainExp st4)
                    \<and> file_bytes w4 (map_path w fn) =
                        ExperienceSignature V2
                        @ concat (map (\<lambda>a. entry_bytes (heap st4 a))
                                    (filter (\<lambda>a. MinDepth \<le>s depth (heap st4 a))
                                       (concat (map snd ix))))"
      using d f by blast
    then show ?R
      using r(1,2) by simp
  qed
  show ?thesis
    apply (rule conjI)
     apply (rule fields)
    apply (rule exI [of _ ?w3])
    apply (rule exI [of _ ?st3])
    apply (rule exI [of _ w4])
    apply (rule exI [of _ st4])
    apply (intro conjI)
          apply (rule refl)
         apply (rule refl)
        apply (rule ds)
       apply (rule run)
      apply (rule impI)
      apply (erule waits)
     apply (rule untouched)
    apply (rule rewrite)
    done
qed

theorem C8_v1_upgrade_witness:
  "files v1_world (map_path v1_world ''v1.exp'') = Some v1_content \<and> v1_content \<noteq> []
   \<and> select_reader [V2, V1] v1_content v1_world = (Some (V1, 2), v1_world)
   \<and> alloc_ok v1_world (unat (2 :: 64 word) * 32)
   \<and> \<not> abortLoading loader_start \<and> loading loader_start
   \<and> wf_index loader_start
   \<and> writable v1_world (map_path v1_world ''v1.exp'')
   \<and> writable v1_world (map_path v1_world ''v1.exp'' @ ''.bak'')
   \<and> (\<exists>w4 st4. load_impl ''v1.exp'' (v1_world, loader_start)
                   = Some (True, say (Load_statistics ''v1.exp'') w4, st4)
        \<and> mainExp st4 = [(9, [0, 1])]
        \<and> file_bytes w4 ''v1.exp''
            = ExperienceSignature V2 @ entry_bytes (new_entry 9 3 10 12 1)
              @ entry_bytes (new_entry 9 4 (- 20) 8 1))
   \<and> data_save ''v1.exp'' True False
       (say (Upgrading_experience_file ''v1.exp'' 1 2)
          (say (Importing_experience_version 1 ''v1.exp'') v1_world),
        v1_parsed\<lparr>expData := [[0, 1]]\<rparr>) = None"
proof -
  let ?S0 = "loader_start"
  let ?st3 = "v1_parsed\<lparr>expData := expData v1_parsed @ [[next_addr ?S0 ..< next_addr ?S0 + unat (2 :: 64 word)]]\<rparr>"
  let ?w3 = "say (Upgrading_experience_file ''v1.exp'' 1 2)
          (say (Importing_experience_version 1 ''v1.exp'') v1_world)"
  have op: "files v1_world (map_path v1_world ''v1.exp'') = Some v1_content" "v1_content \<noteq> []"
    by (simp_all add: v1_world_def plain_world_def v1_content_def)
  have al: "alloc_ok v1_world (unat (2 :: 64 word) * 32)"
    by (simp add: v1_world_def plain_world_def)
  have ab: "\<not> abortLoading ?S0" "loading ?S0"
    by (simp_all add: loader_start_def new_ExperienceData_def)
  have wf: "wf_index ?S0" "\<forall>a \<in> set (index_addrs ?S0). a < next_addr ?S0"
    by (simp_all add: wf_index_def index_addrs_def loader_start_def new_ExperienceData_def)
  have wr: "writable v1_world (map_path v1_world ''v1.exp'')"
    "writable v1_world (map_path v1_world ''v1.exp'' @ ''.bak'')"
    by (simp_all add: v1_world_def plain_world_def)
  have st3: "?st3 = v1_parsed\<lparr>expData := [[0, 1]]\<rparr>"
    by (simp add: v1_parsed_def loader_start_def new_ExperienceData_def upt_rec)
  have ls: "link_staged ?st3 = ?st3"
    by (simp add: link_staged_def v1_parsed_def new_ExperienceData_def)
  have ix: "index_addrs ?st3 = [0, 1]" "mainExp ?st3 = [(9, [0, 1])]"
    by (simp_all add: index_addrs_def v1_parsed_def new_ExperienceData_def)
  have hp: "heap v1_parsed 0 = new_entry 9 3 10 12 1"
    "heap v1_parsed (Suc 0) = new_entry 9 4 (- 20) 8 1"
    by (simp_all add: v1_parsed_def new_ExperienceData_def)
  have ne: "has_new_exp ?st3 \<or> mainExp ?st3 \<noteq> []"
    unfolding ix by simp
  have dk: "26 + 24 * length (index_addrs (link_staged ?st3)) \<le> disk_free v1_world"
    unfolding ls ix by (simp add: v1_world_def plain_world_def)
  have mp: "map_path v1_world ''v1.exp'' = ''v1.exp''"
    by (simp add: v1_world_def plain_world_def)
  from C8_v1_upgrade [OF op v1_select al ab(1) v1_read]
  obtain w4 st4 where r:
    "load_impl ''v1.exp'' (v1_world, ?S0) = Some (True, say (Load_statistics ''v1.exp'') w4, st4)"
    "loading ?S0 \<longrightarrow> data_save ''v1.exp'' True False (?w3, ?st3) = None"
    "wf_index ?S0 \<and> (\<forall>a \<in> set (index_addrs ?S0). a < next_addr ?S0)
             \<and> (has_new_exp ?st3 \<or> mainExp ?st3 \<noteq> [])
             \<and> writable v1_world (map_path v1_world ''v1.exp'')
             \<and> writable v1_world (map_path v1_world ''v1.exp'' @ ''.bak'')
             \<and> 26 + 24 * length (index_addrs (link_staged ?st3)) \<le> disk_free v1_world
            \<longrightarrow> mainExp st4 = mainExp (link_staged ?st3)
              \<and> (\<forall>(k, c) \<in> set (mainExp st4). \<forall>a \<in> set c.
                    heap st4 a = (heap (link_staged ?st3) a)
                      \<lparr>count := max (count (heap (link_staged ?st3) a)
                          div (1 + Max ((\<lambda>b. count (heap (link_staged ?st3) b)) ` set c) div 128)) 1\<rparr>)
              \<and> (\<exists>ix. set ix = set (mainExp st4) \<and> distinct (map fst ix)
                    \<and> length ix = length (mainExp st4)
                    \<and> file_bytes w4 (map_path v1_world ''v1.exp'') =
                        ExperienceSignature V2
                        @ concat (map (\<lambda>a. entry_bytes (heap st4 a))
                                    (filter (\<lambda>a. MinDepth \<le>s depth (heap st4 a))
                                       (concat (map snd ix)))))"
    by blast
  have c: "mainExp st4 = mainExp (link_staged ?st3)"
    "\<forall>(k, c) \<in> set (mainExp st4). \<forall>a \<in> set c.
                    heap st4 a = (heap (link_staged ?st3) a)
                      \<lparr>count := max (count (heap (link_staged ?st3) a)
                          div (1 + Max ((\<lambda>b. count (heap (link_staged ?st3) b)) ` set c) div 128)) 1\<rparr>"
    "\<exists>ix. set ix = set (mainExp st4) \<and> distinct (map fst ix)
                    \<and> length ix = length (mainExp st4)
                    \<and> file_bytes w4 (map_path v1_world ''v1.exp'') =
                        ExperienceSignature V2
                        @ concat (map (\<lambda>a. entry_bytes (heap st4 a))
                                    (filter (\<lambda>a. MinDepth \<le>s depth (heap st4 a))
                                       (concat (map snd ix))))"
    using r(3) wf ne wr dk by blast+
  have m: "mainExp st4 = [(9, [0, 1])]"
    using c(1) unfolding ls ix .
  have h4: "heap st4 0 = new_entry 9 3 10 12 1" "heap st4 (Suc 0) = new_entry 9 4 (- 20) 8 1"
    using c(2) unfolding m ls by (simp_all add: hp new_entry_def)
  from c(3) obtain ix where i: "set ix = set (mainExp st4)" "length ix = length (mainExp st4)"
    "file_bytes w4 (map_path v1_world ''v1.exp'') =
        ExperienceSignature V2
        @ concat (map (\<lambda>a. entry_bytes (heap st4 a))
                    (filter (\<lambda>a. MinDepth \<le>s depth (heap st4 a)) (concat (map snd ix))))"
    by blast
  have "ix = [(9, [0, 1])]"
    using i(1,2) unfolding m by (intro one_chain_index) simp_all
  then have f: "file_bytes w4 ''v1.exp''
            = ExperienceSignature V2 @ entry_bytes (new_entry 9 3 10 12 1)
              @ entry_bytes (new_entry 9 4 (- 20) 8 1)"
    using i(3) unfolding mp by (simp add: h4 new_entry_def MinDepth_def word_sle_eq)
  have n: "data_save ''v1.exp'' True False (?w3, v1_parsed\<lparr>expData := [[0, 1]]\<rparr>) = None"
    using r(2) ab(2) unfolding st3 by simp
  show ?thesis
    using op v1_select al ab wf(1) wr r(1) m f n by blast
qed

end
